theory Spec2Isabelle
  imports Main "HOL-Library.Log_Nat" "HOL-Library.Sublist" "HOL-Library.Word"
begin

section \<open>Python strings\<close>

text \<open>
  A Python \<open>str\<close> is modelled as a \<open>string\<close> whose characters are the code points
  U+0000 to U+00FF.  On these code points \<open>str.lower\<close> works character by character
  and \<open>str.isspace\<close> holds for the twelve code points listed below; \<open>str.strip()\<close> and
  \<open>str.split()\<close> use that same whitespace test.
\<close>

definition isspace :: "char \<Rightarrow> bool" where
  "isspace c = (of_char c \<in> {9, 10, 11, 12, 13, 28, 29, 30, 31, 32, 133, 160 :: nat})"

definition lower_char :: "char \<Rightarrow> char" where
  "lower_char c =
     (let n = (of_char c :: nat)
      in if (65 \<le> n \<and> n \<le> 90) \<or> (192 \<le> n \<and> n \<le> 222 \<and> n \<noteq> 215)
         then char_of (n + 32) else c)"

definition lower :: "string \<Rightarrow> string" where
  "lower s = map lower_char s"

definition strip :: "string \<Rightarrow> string" where
  "strip s = rev (dropWhile isspace (rev (dropWhile isspace s)))"

text \<open>
  \<open>str.split()\<close> without arguments: maximal runs of non-whitespace characters.
  The first argument is the token being read.
\<close>

fun split_from :: "string \<Rightarrow> string \<Rightarrow> string list" where
  "split_from cur [] = (if cur = [] then [] else [cur])"
| "split_from cur (c # cs) =
     (if isspace c
      then (if cur = [] then split_from [] cs else cur # split_from [] cs)
      else split_from (cur @ [c]) cs)"

definition split :: "string \<Rightarrow> string list" where
  "split s = split_from [] s"

text \<open>Python's \<open>a in b\<close> on strings: \<open>a\<close> occurs in \<open>b\<close> as a contiguous substring.\<close>

definition py_in :: "string \<Rightarrow> string \<Rightarrow> bool" where
  "py_in a b = sublist a b"

section \<open>Python floats\<close>

text \<open>
  A Python \<open>float\<close> is an IEEE 754 binary64 number; it is modelled by its exact value,
  a rational.  Every arithmetic operation returns the binary64 number nearest to the
  exact result, ties going to the even significand.  The exponent is left unbounded:
  the model agrees with binary64 for magnitudes from \<open>2 powi -1022\<close> up to
  \<open>2 powi 1024\<close>, which covers every value computed from 32-bit point columns and
  list lengths.
\<close>

definition round_half_even :: "rat \<Rightarrow> int" where
  "round_half_even x =
     (let f = \<lfloor>x\<rfloor>; d = x - of_int f
      in if d < 1 / 2 then f
         else if 1 / 2 < d then f + 1
         else if even f then f else f + 1)"

text \<open>The binary exponent of a positive rational: \<open>2 powi binade x \<le> x < 2 powi (binade x + 1)\<close>.\<close>

definition binade :: "rat \<Rightarrow> int" where
  "binade x =
     (let (a, b) = quotient_of x; d = bitlen a - bitlen b
      in if 2 powi d \<le> x then d else d - 1)"

definition round_double :: "rat \<Rightarrow> rat" where
  "round_double x =
     (if x = 0 then 0
      else let s = 2 powi (52 - binade \<bar>x\<bar>)
           in sgn x * of_int (round_half_even (\<bar>x\<bar> * s)) / s)"

text \<open>\<open>float(n)\<close>, as done implicitly when an \<open>int\<close> meets a \<open>float\<close> in a product.\<close>

definition float_of_int :: "int \<Rightarrow> rat" where
  "float_of_int n = round_double (of_int n)"

definition float_mul :: "rat \<Rightarrow> rat \<Rightarrow> rat" where
  "float_mul x y = round_double (x * y)"

text \<open>\<open>int(x)\<close> of a float truncates towards zero.\<close>

definition py_int :: "rat \<Rightarrow> int" where
  "py_int x = (if 0 \<le> x then \<lfloor>x\<rfloor> else \<lceil>x\<rceil>)"

text \<open>
  \<open>round(x, 2)\<close>: the exact value of \<open>x\<close> is rounded to two decimals, ties to even,
  and the decimal result is converted back to the nearest float.
\<close>

definition py_round2 :: "rat \<Rightarrow> rat" where
  "py_round2 x = round_double (of_int (round_half_even (x * 100)) / 100)"

text \<open>The float literals of the grading service.\<close>

definition lit_0_8 :: rat where "lit_0_8 = round_double (8 / 10)"
definition lit_0_7 :: rat where "lit_0_7 = round_double (7 / 10)"
definition lit_0_5 :: rat where "lit_0_5 = round_double (5 / 10)"

datatype error = ValueError string | ZeroDivisionError | IndexError | AttributeError | TypeError

text \<open>\<open>a / b\<close> on two \<open>int\<close>s: the correctly rounded quotient, or \<open>ZeroDivisionError\<close>.\<close>

definition py_truediv :: "int \<Rightarrow> int \<Rightarrow> error + rat" where
  "py_truediv a b =
     (if b = 0 then Inl ZeroDivisionError else Inr (round_double (of_int a / of_int b)))"

section \<open>Data model (models/quiz.py)\<close>

datatype QuestionType = MCQ | TF | FILL_BLANK | ESSAY

fun qt_value :: "QuestionType \<Rightarrow> string" where
  "qt_value MCQ = ''mcq''"
| "qt_value TF = ''tf''"
| "qt_value FILL_BLANK = ''fill_blank''"
| "qt_value ESSAY = ''essay''"

type_synonym uuid = nat

text \<open>The \<open>Integer\<close> columns are 32-bit signed; they are read with \<open>sint\<close>.\<close>

record QuizQuestion =
  q_id :: uuid
  quiz_id :: uuid
  question_text :: string
  question_type :: QuestionType
  question_order :: "32 word"
  points :: "32 word"

record QuizAnswer =
  question_id :: uuid
  answer_text :: string
  is_correct :: bool
  points_awarded :: "32 word"

text \<open>The database session: the ids of the \<open>quizzes\<close> rows, and the two other tables.\<close>

record db =
  quizzes :: "uuid list"
  quiz_questions :: "QuizQuestion list"
  quiz_answers :: "QuizAnswer list"

text \<open>
  The values of \<open>Any\<close> that an element of \<open>user_answers\<close> can hold: what a JSON request
  body decodes to, and the \<open>UUID\<close> objects that the keys of \<open>question_map\<close> are.
\<close>

datatype py_value =
    PyNone
  | PyBool bool
  | PyInt int
  | PyFloat rat
  | PyStr string
  | PyList "py_value list"
  | PyDict "(string \<times> py_value) list"
  | PyUUID uuid

text \<open>One element of \<open>user_answers\<close>, a \<open>Dict[str, Any]\<close>, and its method \<open>get\<close>.\<close>

type_synonym answer_dict = "string \<rightharpoonup> py_value"

definition dict_get :: "answer_dict \<Rightarrow> string \<Rightarrow> py_value \<Rightarrow> py_value" where
  "dict_get answer k fallback = (case answer k of None \<Rightarrow> fallback | Some v \<Rightarrow> v)"

text \<open>
  \<open>key in question_map\<close> and \<open>question_map[key]\<close>: the key is hashed first, and a list
  or a dictionary is unhashable (\<open>TypeError\<close>); the keys of \<open>question_map\<close> are
  \<open>UUID\<close>s, which are equal to \<open>UUID\<close>s only.
\<close>

definition dict_lookup ::
  "(uuid \<rightharpoonup> QuizQuestion) \<Rightarrow> py_value \<Rightarrow> error + (uuid \<times> QuizQuestion) option" where
  "dict_lookup question_map k =
     (case k of
        PyList _ \<Rightarrow> Inl TypeError
      | PyDict _ \<Rightarrow> Inl TypeError
      | PyUUID qid \<Rightarrow> Inr (map_option (Pair qid) (question_map qid))
      | _ \<Rightarrow> Inr None)"

text \<open>
  Every grader starts with \<open>user_answer.lower()\<close> or \<open>user_answer.strip()\<close>, methods
  of \<open>str\<close>: on any other value the attribute lookup raises \<open>AttributeError\<close>.
\<close>

definition str_methods :: "py_value \<Rightarrow> error + string" where
  "str_methods user_answer =
     (case user_answer of PyStr text \<Rightarrow> Inr text | _ \<Rightarrow> Inl AttributeError)"

text \<open>One element of \<open>graded_results\<close>.\<close>

record graded_answer =
  ga_question_id :: uuid
  ga_question_text :: string
  ga_user_answer :: string
  ga_is_correct :: bool
  ga_points_awarded :: int
  ga_points_possible :: int
  ga_feedback :: string
  ga_question_type :: string

type_synonym grade = "bool \<times> int \<times> string"

section \<open>The graders (services/quiz\_grading\_service.py)\<close>

text \<open>The feedback of the last \<open>return\<close> of a grader: \<open>correct_answers[0]\<close> is read only when the list is not empty.\<close>

definition incorrect_feedback :: "string \<Rightarrow> QuizAnswer list \<Rightarrow> string" where
  "incorrect_feedback intro correct_answers =
     (case correct_answers of
        [] \<Rightarrow> ''Incorrect answer.''
      | c # _ \<Rightarrow> intro @ answer_text c)"

subsection \<open>Multiple choice\<close>

fun grade_mcq_exact :: "string \<Rightarrow> QuizAnswer list \<Rightarrow> grade option" where
  "grade_mcq_exact user_answer_lower [] = None"
| "grade_mcq_exact user_answer_lower (correct_answer # rest) =
     (if user_answer_lower = strip (lower (answer_text correct_answer))
      then Some (True, sint (points_awarded correct_answer), ''Correct! Well done.'')
      else grade_mcq_exact user_answer_lower rest)"

fun grade_mcq_contained :: "string \<Rightarrow> QuizAnswer list \<Rightarrow> grade option" where
  "grade_mcq_contained user_answer_lower [] = None"
| "grade_mcq_contained user_answer_lower (correct_answer # rest) =
     (if py_in (strip (lower (answer_text correct_answer))) user_answer_lower
      then Some (True, sint (points_awarded correct_answer),
                 ''Partially correct. Consider reviewing the material for a complete answer.'')
      else grade_mcq_contained user_answer_lower rest)"

definition grade_mcq :: "string \<Rightarrow> QuizAnswer list \<Rightarrow> error + grade" where
  "grade_mcq user_answer correct_answers =
     (let user_answer_lower = strip (lower user_answer)
      in case grade_mcq_exact user_answer_lower correct_answers of
           Some r \<Rightarrow> Inr r
         | None \<Rightarrow>
             (case grade_mcq_contained user_answer_lower correct_answers of
                Some r \<Rightarrow> Inr r
              | None \<Rightarrow>
                  Inr (False, 0,
                       incorrect_feedback ''Incorrect. The correct answer was: '' correct_answers)))"

subsection \<open>True/false\<close>

fun grade_true_false_loop :: "string \<Rightarrow> QuizAnswer list \<Rightarrow> grade option" where
  "grade_true_false_loop user_answer_lower [] = None"
| "grade_true_false_loop user_answer_lower (correct_answer # rest) =
     (let correct_text_lower = strip (lower (answer_text correct_answer))
      in if (correct_text_lower \<in> set [''true'', ''yes'', ''correct''] \<and>
             user_answer_lower \<in> set [''true'', ''yes'', ''correct'', ''t'', ''y'']) \<or>
            (correct_text_lower \<in> set [''false'', ''no'', ''incorrect''] \<and>
             user_answer_lower \<in> set [''false'', ''no'', ''incorrect'', ''f'', ''n''])
         then Some (True, sint (points_awarded correct_answer), ''Correct! Well done.'')
         else grade_true_false_loop user_answer_lower rest)"

definition grade_true_false :: "string \<Rightarrow> QuizAnswer list \<Rightarrow> error + grade" where
  "grade_true_false user_answer correct_answers =
     (case grade_true_false_loop (strip (lower user_answer)) correct_answers of
        Some r \<Rightarrow> Inr r
      | None \<Rightarrow>
          Inr (False, 0,
               incorrect_feedback ''Incorrect. The correct answer was: '' correct_answers))"

subsection \<open>Fill in the blank\<close>

text \<open>\<open>int(points_awarded * factor)\<close> for a float literal \<open>factor\<close>.\<close>

definition partial_credit :: "32 word \<Rightarrow> rat \<Rightarrow> int" where
  "partial_credit p factor = py_int (float_mul (float_of_int (sint p)) factor)"

fun grade_fill_blank_loop :: "string \<Rightarrow> QuizAnswer list \<Rightarrow> error + grade option" where
  "grade_fill_blank_loop user_answer_lower [] = Inr None"
| "grade_fill_blank_loop user_answer_lower (correct_answer # rest) =
     (let correct_text_lower = strip (lower (answer_text correct_answer))
      in if user_answer_lower = correct_text_lower
         then Inr (Some (True, sint (points_awarded correct_answer), ''Correct! Well done.''))
         else if py_in correct_text_lower user_answer_lower \<or>
                 py_in user_answer_lower correct_text_lower
         then Inr (Some (True, partial_credit (points_awarded correct_answer) lit_0_8,
                         ''Close! The answer was slightly different than expected.''))
         else
           (let correct_words = set (split correct_text_lower);
                user_words = set (split user_answer_lower)
            in case py_truediv (int (card (correct_words \<inter> user_words)))
                               (int (card correct_words)) of
                 Inl e \<Rightarrow> Inl e
               | Inr ratio \<Rightarrow>
                   if lit_0_8 \<le> ratio
                   then Inr (Some (True, partial_credit (points_awarded correct_answer) lit_0_7,
                                   ''Partially correct. Consider reviewing the exact terminology.''))
                   else grade_fill_blank_loop user_answer_lower rest))"

definition grade_fill_blank :: "string \<Rightarrow> QuizAnswer list \<Rightarrow> error + grade" where
  "grade_fill_blank user_answer correct_answers =
     (if strip user_answer = [] then Inr (False, 0, ''No answer provided.'')
      else case grade_fill_blank_loop (strip (lower user_answer)) correct_answers of
             Inl e \<Rightarrow> Inl e
           | Inr (Some r) \<Rightarrow> Inr r
           | Inr None \<Rightarrow> Inr (False, 0, incorrect_feedback ''Incorrect. Expected: '' correct_answers))"

subsection \<open>Essay\<close>

definition key_terms :: "QuizAnswer \<Rightarrow> string list" where
  "key_terms correct_answer =
     map strip (filter (\<lambda>term. 3 < length term) (split (answer_text correct_answer)))"

text \<open>The loop over the correct answers; the state is \<open>(key_terms_found, total_key_terms)\<close>.\<close>

fun essay_count :: "string \<Rightarrow> QuizAnswer list \<Rightarrow> nat \<times> nat \<Rightarrow> nat \<times> nat" where
  "essay_count user_answer [] acc = acc"
| "essay_count user_answer (correct_answer # rest) (key_terms_found, total_key_terms) =
     essay_count user_answer rest
       (key_terms_found +
          length (filter (\<lambda>term. py_in (lower term) (lower user_answer)) (key_terms correct_answer)),
        total_key_terms + length (key_terms correct_answer))"

definition essay_feedback :: "rat \<Rightarrow> string" where
  "essay_feedback match_ratio =
     (if lit_0_8 \<le> match_ratio then ''Strong response with good coverage of key concepts.''
      else if lit_0_5 \<le> match_ratio then ''Good response but could include more key concepts.''
      else ''Response needs more key concepts and details.'')"

definition grade_essay :: "string \<Rightarrow> QuizAnswer list \<Rightarrow> error + grade" where
  "grade_essay user_answer correct_answers =
     (if strip user_answer = [] then Inr (False, 0, ''No answer provided.'')
      else if length user_answer < 50
      then Inr (True, 1, ''Response is too short. Please provide more detail and explanation.'')
      else
        (let (key_terms_found, total_key_terms) = essay_count user_answer correct_answers (0, 0)
         in if 0 < total_key_terms
            then (case py_truediv (int key_terms_found) (int total_key_terms) of
                    Inl e \<Rightarrow> Inl e
                  | Inr match_ratio \<Rightarrow>
                      Inr (True,
                           (case correct_answers of
                              [] \<Rightarrow> 0
                            | c # _ \<Rightarrow>
                                py_int (float_mul (float_of_int (sint (points_awarded c)))
                                                  (min match_ratio 1))),
                           essay_feedback match_ratio))
            else Inr (True, 0, ''Essay response received.'')))"

subsection \<open>Generic text comparison\<close>

fun grade_text_comparison_loop :: "string \<Rightarrow> QuizAnswer list \<Rightarrow> grade option" where
  "grade_text_comparison_loop user_answer_lower [] = None"
| "grade_text_comparison_loop user_answer_lower (correct_answer # rest) =
     (let correct_text_lower = strip (lower (answer_text correct_answer))
      in if user_answer_lower = correct_text_lower
         then Some (True, sint (points_awarded correct_answer), ''Correct! Well done.'')
         else if py_in correct_text_lower user_answer_lower \<or>
                 py_in user_answer_lower correct_text_lower
         then Some (True, partial_credit (points_awarded correct_answer) lit_0_8,
                    ''Partially correct.'')
         else grade_text_comparison_loop user_answer_lower rest)"

definition grade_text_comparison :: "string \<Rightarrow> QuizAnswer list \<Rightarrow> error + grade" where
  "grade_text_comparison user_answer correct_answers =
     (if strip user_answer = [] \<or> correct_answers = []
      then Inr (False, 0, ''No answer provided or no correct answers defined.'')
      else case grade_text_comparison_loop (strip (lower user_answer)) correct_answers of
             Some r \<Rightarrow> Inr r
           | None \<Rightarrow>
               (case correct_answers of
                  [] \<Rightarrow> Inl IndexError
                | c # _ \<Rightarrow> Inr (False, 0, ''Incorrect. Expected: '' @ answer_text c)))"

subsection \<open>Dispatch\<close>

definition grade_single_answer ::
  "QuizQuestion \<Rightarrow> string \<Rightarrow> QuizAnswer list \<Rightarrow> error + grade" where
  "grade_single_answer question user_answer correct_answers =
     (if qt_value (question_type question) = ''mcq''
      then grade_mcq user_answer correct_answers
      else if qt_value (question_type question) = ''tf''
      then grade_true_false user_answer correct_answers
      else if qt_value (question_type question) = ''fill_blank''
      then grade_fill_blank user_answer correct_answers
      else if qt_value (question_type question) = ''essay''
      then grade_essay user_answer correct_answers
      else grade_text_comparison user_answer correct_answers)"

section \<open>Aggregation and feedback\<close>

text \<open>\<open>earned / possible * 100\<close> as evaluated by Python: a float division, then a float product.\<close>

definition percent :: "int \<Rightarrow> int \<Rightarrow> error + rat" where
  "percent earned possible =
     (case py_truediv earned possible of
        Inl e \<Rightarrow> Inl e
      | Inr ratio \<Rightarrow> Inr (float_mul ratio (float_of_int 100)))"

text \<open>
  The \<open>breakdown\<close> dictionary of \<open>_create_score_breakdown\<close>, in insertion order:
  question type, possible points, earned points, count.
\<close>

fun breakdown_add ::
  "graded_answer \<Rightarrow> (string \<times> int \<times> int \<times> int) list \<Rightarrow> (string \<times> int \<times> int \<times> int) list" where
  "breakdown_add r [] =
     [(ga_question_type r, 0 + ga_points_possible r, 0 + ga_points_awarded r, 0 + 1)]"
| "breakdown_add r ((q_type, possible, earned, n) # rest) =
     (if q_type = ga_question_type r
      then (q_type, possible + ga_points_possible r, earned + ga_points_awarded r, n + 1) # rest
      else (q_type, possible, earned, n) # breakdown_add r rest)"

record breakdown_row =
  br_question_type :: string
  br_possible_points :: int
  br_earned_points :: int
  br_count :: int
  br_percentage :: rat

fun breakdown_rows :: "(string \<times> int \<times> int \<times> int) list \<Rightarrow> error + breakdown_row list" where
  "breakdown_rows [] = Inr []"
| "breakdown_rows ((q_type, possible, earned, n) # rest) =
     (case (if 0 < possible then percent earned possible else Inr 0) of
        Inl e \<Rightarrow> Inl e
      | Inr pct \<Rightarrow>
          (case breakdown_rows rest of
             Inl e \<Rightarrow> Inl e
           | Inr rows \<Rightarrow>
               Inr (\<lparr>br_question_type = q_type, br_possible_points = possible,
                      br_earned_points = earned, br_count = n,
                      br_percentage = py_round2 pct\<rparr> # rows)))"

definition create_score_breakdown :: "graded_answer list \<Rightarrow> error + breakdown_row list" where
  "create_score_breakdown graded_results = breakdown_rows (fold breakdown_add graded_results [])"

definition generate_overall_feedback :: "graded_answer list \<Rightarrow> rat \<Rightarrow> string" where
  "generate_overall_feedback graded_results overall_score =
     (if 90 \<le> overall_score
      then ''Excellent work! You demonstrated strong understanding of the material.''
      else if 80 \<le> overall_score
      then ''Great job! You have a good grasp of the concepts with room for minor improvements.''
      else if 70 \<le> overall_score
      then ''Good effort! You understand the main concepts but should review some areas.''
      else if 60 \<le> overall_score
      then ''Fair performance. Focus on reviewing the areas where you had difficulties.''
      else ''More practice needed. Review the material and try again.'')"

definition lit_0_3 :: rat where "lit_0_3 = round_double (3 / 10)"

definition generate_suggestions :: "graded_answer list \<Rightarrow> string list" where
  "generate_suggestions graded_results =
     (let suggestions =
            map (\<lambda>r. ''Review the concept related to: '' @ take 50 (ga_question_text r) @ ''...'')
                (filter (\<lambda>r. \<not> ga_is_correct r) graded_results);
          incorrect_count = length (filter (\<lambda>r. \<not> ga_is_correct r) graded_results)
      in if float_mul (float_of_int (int (length graded_results))) lit_0_5 < of_nat incorrect_count
         then suggestions @
              [''Consider reviewing the entire section or chapter'',
               ''Try additional practice questions on these topics'',
               ''Seek additional resources or examples for better understanding'']
         else suggestions)"

definition identify_misconceptions :: "graded_answer list \<Rightarrow> string list" where
  "identify_misconceptions graded_results =
     map (\<lambda>r. ''Possible misunderstanding of: '' @ take 60 (ga_question_text r) @ ''...'')
         (filter (\<lambda>r. \<not> ga_is_correct r) graded_results)"

definition generate_recommendations :: "graded_answer list \<Rightarrow> string list" where
  "generate_recommendations graded_results =
     (let incorrect_questions = filter (\<lambda>r. \<not> ga_is_correct r) graded_results;
          first_lines =
            (if 0 < length incorrect_questions
             then [''Review the material for incorrectly answered questions'',
                   ''Practice similar questions to reinforce understanding'']
             else [])
      in if float_mul (float_of_int (int (length graded_results))) lit_0_3
              < of_nat (length incorrect_questions)
         then first_lines @ [''Consider revisiting the foundational concepts before proceeding'']
         else first_lines)"

definition calculate_confidence_level :: "rat \<Rightarrow> string" where
  "calculate_confidence_level overall_score =
     (if 90 \<le> overall_score then ''high''
      else if 70 \<le> overall_score then ''medium''
      else ''low'')"

section \<open>The grading service\<close>

record grading_result =
  gr_quiz_id :: uuid
  gr_user_id :: uuid
  overall_score :: rat
  max_score :: int
  earned_points :: int
  graded_answers :: "graded_answer list"
  breakdown :: "breakdown_row list"
  detailed_feedback :: string
  suggested_improvements :: "string list"
  misconceptions_identified :: "string list"
  next_learning_recommendations :: "string list"
  confidence_level :: string
  grading_method :: string

text \<open>\<open>{q.id: q for q in questions}\<close>: a later question of the same id replaces an earlier one.\<close>

definition question_map_of :: "QuizQuestion list \<Rightarrow> (uuid \<rightharpoonup> QuizQuestion)" where
  "question_map_of questions = fold (\<lambda>q m. m(q_id q \<mapsto> q)) questions Map.empty"

definition correct_answers_of :: "db \<Rightarrow> uuid \<Rightarrow> QuizAnswer list" where
  "correct_answers_of d qid =
     filter (\<lambda>a. question_id a = qid \<and> is_correct a = True) (quiz_answers d)"

text \<open>
  The loop over \<open>user_answers\<close>; the state is
  \<open>(graded_results, total_possible_points, earned_points)\<close>.
\<close>

fun grade_answers ::
  "db \<Rightarrow> (uuid \<rightharpoonup> QuizQuestion) \<Rightarrow> answer_dict list \<Rightarrow> graded_answer list \<times> int \<times> int
     \<Rightarrow> error + graded_answer list \<times> int \<times> int" where
  "grade_answers d question_map [] state = Inr state"
| "grade_answers d question_map (answer # rest) (graded_results, total_possible, earned) =
     (let id_value = dict_get answer ''question_id'' PyNone;
          user_answer = dict_get answer ''answer_text'' (PyStr [])
      in case dict_lookup question_map id_value of
           Inl e \<Rightarrow> Inl e
         | Inr None \<Rightarrow>
             grade_answers d question_map rest (graded_results, total_possible, earned)
         | Inr (Some (qid, question)) \<Rightarrow>
             (case str_methods user_answer of
                Inl e \<Rightarrow> Inl e
              | Inr text \<Rightarrow>
                  (case grade_single_answer question text (correct_answers_of d qid) of
                     Inl e \<Rightarrow> Inl e
                   | Inr (correct, awarded, feedback) \<Rightarrow>
                       grade_answers d question_map rest
                         (graded_results @
                            [\<lparr>ga_question_id = qid,
                              ga_question_text = question_text question,
                              ga_user_answer = text,
                              ga_is_correct = correct,
                              ga_points_awarded = awarded,
                              ga_points_possible = sint (points question),
                              ga_feedback = feedback,
                              ga_question_type = qt_value (question_type question)\<rparr>],
                          total_possible + sint (points question),
                          if correct then earned + awarded else earned))))"

definition questions_of :: "db \<Rightarrow> uuid \<Rightarrow> QuizQuestion list" where
  "questions_of d qz =
     sort_key (\<lambda>q. sint (question_order q)) (filter (\<lambda>q. quiz_id q = qz) (quiz_questions d))"

definition grade_quiz_submission ::
  "db \<Rightarrow> uuid \<Rightarrow> uuid \<Rightarrow> answer_dict list \<Rightarrow> error + grading_result" where
  "grade_quiz_submission d user_id qz user_answers =
     (case find (\<lambda>q. q = qz) (quizzes d) of
        None \<Rightarrow> Inl (ValueError ''Quiz not found'')
      | Some quiz \<Rightarrow>
          (let questions = questions_of d qz
           in if questions = [] then Inl (ValueError ''No questions found for this quiz'')
              else
                (case grade_answers d (question_map_of questions) user_answers ([], 0, 0) of
                   Inl e \<Rightarrow> Inl e
                 | Inr (graded_results, total_possible, earned) \<Rightarrow>
                     (case (if 0 < total_possible then percent earned total_possible else Inr 0) of
                        Inl e \<Rightarrow> Inl e
                      | Inr score \<Rightarrow>
                          (case create_score_breakdown graded_results of
                             Inl e \<Rightarrow> Inl e
                           | Inr rows \<Rightarrow>
                               Inr \<lparr>gr_quiz_id = qz,
                                    gr_user_id = user_id,
                                    overall_score = py_round2 score,
                                    max_score = total_possible,
                                    earned_points = earned,
                                    graded_answers = graded_results,
                                    breakdown = rows,
                                    detailed_feedback =
                                      generate_overall_feedback graded_results score,
                                    suggested_improvements = generate_suggestions graded_results,
                                    misconceptions_identified =
                                      identify_misconceptions graded_results,
                                    next_learning_recommendations =
                                      generate_recommendations graded_results,
                                    confidence_level = calculate_confidence_level score,
                                    grading_method = ''rule_based''\<rparr>)))))"

section \<open>Example data\<close>

text \<open>
  A database with two quizzes.  Quiz 4 has one multiple-choice question worth 10
  points, whose correct entry is ``Paris''; quiz 5 has no question.
\<close>

definition geography_db :: db where
  "geography_db =
     \<lparr>quizzes = [4, 5],
      quiz_questions =
        [\<lparr>q_id = 11, quiz_id = 4, question_text = ''What is the capital of France?'',
          question_type = MCQ, question_order = 0, points = 10\<rparr>],
      quiz_answers =
        [\<lparr>question_id = 11, answer_text = ''Paris'', is_correct = True, points_awarded = 10\<rparr>,
         \<lparr>question_id = 11, answer_text = ''Lyon'', is_correct = False, points_awarded = 0\<rparr>]\<rparr>"

definition paris_answer :: answer_dict where
  "paris_answer = [''question_id'' \<mapsto> PyUUID 11, ''answer_text'' \<mapsto> PyStr ''paris '']"

text \<open>
  The same quiz with a negative number of points on its correct entry, and a quiz whose
  essay question is worth no point.
\<close>

definition negative_key_db :: db where
  "negative_key_db =
     \<lparr>quizzes = [4],
      quiz_questions =
        [\<lparr>q_id = 11, quiz_id = 4, question_text = ''What is the capital of France?'',
          question_type = MCQ, question_order = 0, points = 10\<rparr>],
      quiz_answers =
        [\<lparr>question_id = 11, answer_text = ''Paris'', is_correct = True, points_awarded = - 5\<rparr>]\<rparr>"

definition zero_point_db :: db where
  "zero_point_db =
     \<lparr>quizzes = [4],
      quiz_questions =
        [\<lparr>q_id = 11, quiz_id = 4, question_text = ''Describe the water cycle.'',
          question_type = ESSAY, question_order = 0, points = 0\<rparr>,
         \<lparr>q_id = 12, quiz_id = 4, question_text = ''What is the capital of France?'',
          question_type = MCQ, question_order = 1, points = 1\<rparr>],
      quiz_answers =
        [\<lparr>question_id = 12, answer_text = ''Paris'', is_correct = True, points_awarded = 1\<rparr>]\<rparr>"

definition zero_point_answers :: "answer_dict list" where
  "zero_point_answers =
     [[''question_id'' \<mapsto> PyUUID 11, ''answer_text'' \<mapsto> PyStr ''rain''],
      [''question_id'' \<mapsto> PyUUID 12, ''answer_text'' \<mapsto> PyStr ''Paris'']]"


text \<open>Entries of answer keys, and an essay answer of 62 characters.\<close>

definition paris_entry :: QuizAnswer where
  "paris_entry =
     \<lparr>question_id = 11, answer_text = ''Paris'', is_correct = True, points_awarded = 10\<rparr>"

definition true_entry :: QuizAnswer where
  "true_entry =
     \<lparr>question_id = 12, answer_text = ''True'', is_correct = True, points_awarded = 5\<rparr>"

definition t_entry :: QuizAnswer where
  "t_entry = \<lparr>question_id = 12, answer_text = ''t'', is_correct = True, points_awarded = 5\<rparr>"

definition reactions_entry :: QuizAnswer where
  "reactions_entry =
     \<lparr>question_id = 13, answer_text = ''light dependent reactions produce oxygen'',
      is_correct = True, points_awarded = 90\<rparr>"

definition pigment_entry :: QuizAnswer where
  "pigment_entry =
     \<lparr>question_id = 14, answer_text = ''photosynthesis chlorophyll'', is_correct = True,
      points_awarded = 10\<rparr>"

definition blank_entry :: QuizAnswer where
  "blank_entry =
     \<lparr>question_id = 13, answer_text = '' '', is_correct = True, points_awarded = 10\<rparr>"

definition blank_penalty_entry :: QuizAnswer where
  "blank_penalty_entry =
     \<lparr>question_id = 13, answer_text = '' '', is_correct = True, points_awarded = - 3\<rparr>"

definition x_entry :: QuizAnswer where
  "x_entry = \<lparr>question_id = 13, answer_text = ''x'', is_correct = True, points_awarded = 5\<rparr>"

definition long_answer :: string where
  "long_answer = ''I do not remember anything about this topic, sorry about that.''"




definition leaf_answer :: string where
  "leaf_answer = ''Green leaves make sugar from light by photosynthesis, I think.''"

section \<open>Predicates used in the statements\<close>

text \<open>
  The answer key of quiz \<open>qz\<close> is in range: every question of the quiz is worth at least
  one point, and the points of each of its entries lie between 0 and the points of the
  question.
\<close>

definition key_in_range :: "db \<Rightarrow> uuid \<Rightarrow> bool" where
  "key_in_range d qz \<longleftrightarrow>
     (\<forall>q\<in>set (quiz_questions d). quiz_id q = qz \<longrightarrow>
        1 \<le> sint (points q) \<and>
        (\<forall>a\<in>set (quiz_answers d). question_id a = q_id q \<longrightarrow>
           0 \<le> sint (points_awarded a) \<and> sint (points_awarded a) \<le> sint (points q)))"


text \<open>The question id of the submitted answer is a key of the map.\<close>

definition looked_up :: "(uuid \<rightharpoonup> QuizQuestion) \<Rightarrow> answer_dict \<Rightarrow> bool" where
  "looked_up m a \<longleftrightarrow>
     (case dict_get a ''question_id'' PyNone of PyUUID qid \<Rightarrow> m qid \<noteq> None | _ \<Rightarrow> False)"

text \<open>Python's hashable values, among those of \<open>py_value\<close>.\<close>

definition hashable :: "py_value \<Rightarrow> bool" where
  "hashable v = (case v of PyList _ \<Rightarrow> False | PyDict _ \<Rightarrow> False | _ \<Rightarrow> True)"

definition is_str :: "py_value \<Rightarrow> bool" where
  "is_str v = (case v of PyStr _ \<Rightarrow> True | _ \<Rightarrow> False)"


text \<open>
  The key terms of all correct entries, and those of them that occur in the answer, as
  the essay grader counts them (with repetitions).
\<close>

definition total_terms :: "QuizAnswer list \<Rightarrow> nat" where
  "total_terms cas = sum_list (map (\<lambda>ca. length (key_terms ca)) cas)"

definition matched_terms :: "string \<Rightarrow> QuizAnswer list \<Rightarrow> nat" where
  "matched_terms ua cas =
     sum_list (map (\<lambda>ca. length (filter (\<lambda>term. py_in (lower term) (lower ua)) (key_terms ca)))
                   cas)"

section \<open>Properties of the float model\<close>

lemma rhe_floor_le: "\<lfloor>x\<rfloor> \<le> round_half_even x"
  by (simp add: round_half_even_def Let_def)

lemma rhe_le_floor1: "round_half_even x \<le> \<lfloor>x\<rfloor> + 1"
  by (simp add: round_half_even_def Let_def)

lemma rhe_of_int: "round_half_even (of_int n) = n"
  by (simp add: round_half_even_def Let_def)

lemma rhe_mono:
  assumes "x \<le> y"
  shows "round_half_even x \<le> round_half_even y"
proof (cases "\<lfloor>x\<rfloor> = \<lfloor>y\<rfloor>")
  case True
  with assms show ?thesis
    by (auto simp add: round_half_even_def Let_def)
next
  case False
  with assms have "\<lfloor>x\<rfloor> < \<lfloor>y\<rfloor>"
    by (simp add: floor_mono order.not_eq_order_implies_strict)
  then have "\<lfloor>x\<rfloor> + 1 \<le> \<lfloor>y\<rfloor>" by simp
  with rhe_le_floor1 [of x] rhe_floor_le [of y] show ?thesis by linarith
qed

lemma rhe_err: "\<bar>of_int (round_half_even x) - x\<bar> \<le> 1 / 2"
proof -
  have "of_int \<lfloor>x\<rfloor> \<le> x" "x < of_int \<lfloor>x\<rfloor> + 1" by linarith+
  then show ?thesis
    by (simp add: round_half_even_def Let_def abs_if) linarith
qed

lemma bitlen_powi:
  assumes "0 < a"
  shows "(2::rat) powi (bitlen a - 1) \<le> of_int a" and "of_int a < (2::rat) powi bitlen a"
proof -
  from assms have l: "1 \<le> bitlen a"
    using bitlen_eq_zero_iff [of a] bitlen_nonneg [of a] by linarith
  from bitlen_bounds [OF assms]
  have "(2::int) ^ nat (bitlen a - 1) \<le> a" and "a < (2::int) ^ nat (bitlen a)" by simp_all
  then have "(of_int ((2::int) ^ nat (bitlen a - 1)) :: rat) \<le> of_int a"
    and "(of_int a :: rat) < of_int ((2::int) ^ nat (bitlen a))"
    by (simp_all only: of_int_le_iff of_int_less_iff)
  with l show "(2::rat) powi (bitlen a - 1) \<le> of_int a" and "of_int a < (2::rat) powi bitlen a"
    by (simp_all add: power_int_def)
qed

lemma binade_bounds:
  assumes "0 < x"
  shows "2 powi binade x \<le> x \<and> x < 2 powi (binade x + 1)"
proof -
  obtain a b where q: "quotient_of x = (a, b)" by (cases "quotient_of x")
  then have b: "0 < b" and x: "x = of_int a / of_int b"
    by (simp_all add: quotient_of_denom_pos quotient_of_div)
  with assms have a: "0 < a"
    by (simp add: zero_less_divide_iff)
  define d where "d = bitlen a - bitlen b"
  have lo: "(2::rat) powi (d - 1) < x"
  proof -
    have "(2::rat) powi (d - 1) * of_int b < 2 powi (d - 1) * 2 powi bitlen b"
      using bitlen_powi(2) [OF b] by simp
    also have "\<dots> = 2 powi (bitlen a - 1)"
      by (simp add: d_def flip: power_int_add)
    also have "\<dots> \<le> of_int a" by (rule bitlen_powi(1) [OF a])
    finally show ?thesis using b by (simp add: x pos_less_divide_eq)
  qed
  have hi: "x < (2::rat) powi (d + 1)"
  proof -
    have "of_int a < (2::rat) powi bitlen a" by (rule bitlen_powi(2) [OF a])
    also have "\<dots> = 2 powi (d + 1) * 2 powi (bitlen b - 1)"
      by (simp add: d_def flip: power_int_add)
    also have "\<dots> \<le> 2 powi (d + 1) * of_int b"
      using bitlen_powi(1) [OF b] by simp
    finally show ?thesis using b by (simp add: x pos_divide_less_eq)
  qed
  have e: "binade x = (if 2 powi d \<le> x then d else d - 1)"
    by (simp add: binade_def q d_def)
  show ?thesis
  proof (cases "2 powi d \<le> x")
    case True
    with e hi show ?thesis by simp
  next
    case False
    with e lo show ?thesis by simp
  qed
qed

lemma pow2_less_D:
  assumes "(2::rat) powi m < 2 powi n"
  shows "m < n"
proof (rule ccontr)
  assume "\<not> m < n"
  then have "n \<le> m" by simp
  then have "(2::rat) powi n \<le> 2 powi m" by (rule power_int_increasing) simp
  with assms show False by simp
qed

lemma binade_unique:
  assumes "2 powi e \<le> x" and "x < 2 powi (e + 1)"
  shows "binade x = e"
proof -
  have "(0::rat) < 2 powi e" by simp
  with assms(1) have pos: "0 < x" by linarith
  from binade_bounds [OF pos] have b1: "2 powi binade x \<le> x" and b2: "x < 2 powi (binade x + 1)"
    by simp_all
  have "(2::rat) powi e < 2 powi (binade x + 1)" using assms(1) b2 by simp
  then have "e < binade x + 1" by (rule pow2_less_D)
  moreover have "(2::rat) powi binade x < 2 powi (e + 1)" using assms(2) b1 by simp
  then have "binade x < e + 1" by (rule pow2_less_D)
  ultimately show ?thesis by simp
qed

lemma binade_mono:
  assumes "0 < x" and "x \<le> y"
  shows "binade x \<le> binade y"
proof -
  from assms have "0 < y" by simp
  from binade_bounds [OF assms(1)] binade_bounds [OF this] assms(2)
  have "(2::rat) powi binade x < 2 powi (binade y + 1)" by simp
  then have "binade x < binade y + 1" by (rule pow2_less_D)
  then show ?thesis by simp
qed

text \<open>The significand of a positive number lies between \<open>2 ^ 52\<close> and \<open>2 ^ 53\<close>.\<close>

lemma scaled_bounds:
  assumes "0 < x"
  shows "2 ^ 52 \<le> x * 2 powi (52 - binade x)" and "x * 2 powi (52 - binade x) < 2 ^ 53"
proof -
  let ?s = "(2::rat) powi (52 - binade x)"
  have s: "0 < ?s" by simp
  from binade_bounds [OF assms] have b1: "2 powi binade x \<le> x" and b2: "x < 2 powi (binade x + 1)"
    by simp_all
  have "2 powi binade x * ?s \<le> x * ?s" using b1 s by (simp only: mult_le_cancel_right_pos)
  moreover have "2 powi binade x * ?s = (2::rat) powi 52" by (simp flip: power_int_add)
  ultimately show "2 ^ 52 \<le> x * ?s" by simp
  have "x * ?s < 2 powi (binade x + 1) * ?s" using b2 s by (simp only: mult_less_cancel_right_pos)
  moreover have "2 powi (binade x + 1) * ?s = (2::rat) powi 53" by (simp flip: power_int_add)
  ultimately show "x * ?s < 2 ^ 53" by simp
qed

lemma round_double_pos:
  assumes "0 < x"
  shows "round_double x = of_int (round_half_even (x * 2 powi (52 - binade x))) / 2 powi (52 - binade x)"
  using assms by (simp add: round_double_def Let_def)

lemma round_double_pos_bounds:
  assumes "0 < x"
  shows "2 powi binade x \<le> round_double x" and "round_double x \<le> 2 powi (binade x + 1)"
proof -
  let ?s = "(2::rat) powi (52 - binade x)"
  let ?m = "round_half_even (x * ?s)"
  have s: "0 < ?s" by simp
  have e1: "52 - (52 - binade x) = binade x" and e2: "53 - (52 - binade x) = binade x + 1"
    by simp_all
  have "round_half_even (of_int (2 ^ 52)) \<le> ?m"
    using scaled_bounds(1) [OF assms] by (intro rhe_mono) simp
  then have "2 ^ 52 \<le> ?m" by (simp only: rhe_of_int)
  then have "(2::rat) ^ 52 \<le> of_int ?m" by (metis of_int_le_iff of_int_numeral of_int_power)
  then have "(2::rat) powi 52 \<le> of_int ?m" by simp
  then have "(2::rat) powi 52 / ?s \<le> of_int ?m / ?s" by (rule divide_right_mono) simp
  moreover have "(2::rat) powi 52 / ?s = 2 powi (52 - (52 - binade x))"
    by (rule power_int_diff [symmetric]) simp
  then have "(2::rat) powi 52 / ?s = 2 powi binade x" unfolding e1 .
  ultimately show "2 powi binade x \<le> round_double x" by (simp add: round_double_pos [OF assms])
  have "?m \<le> round_half_even (of_int (2 ^ 53))"
    using scaled_bounds(2) [OF assms] by (intro rhe_mono) simp
  then have "?m \<le> 2 ^ 53" by (simp only: rhe_of_int)
  then have "of_int ?m \<le> (2::rat) ^ 53" by (metis of_int_le_iff of_int_numeral of_int_power)
  then have "of_int ?m \<le> (2::rat) powi 53" by simp
  then have "of_int ?m / ?s \<le> (2::rat) powi 53 / ?s" by (rule divide_right_mono) simp
  moreover have "(2::rat) powi 53 / ?s = 2 powi (53 - (52 - binade x))"
    by (rule power_int_diff [symmetric]) simp
  then have "(2::rat) powi 53 / ?s = 2 powi (binade x + 1)" unfolding e2 .
  ultimately show "round_double x \<le> 2 powi (binade x + 1)" by (simp add: round_double_pos [OF assms])
qed

lemma round_double_mono_pos:
  assumes "0 < x" and "x \<le> y"
  shows "round_double x \<le> round_double y"
proof (cases "binade x = binade y")
  case True
  from assms have y: "0 < y" by simp
  let ?s = "(2::rat) powi (52 - binade y)"
  have "x * ?s \<le> y * ?s" using assms(2) by (simp add: mult_right_mono)
  then have "round_half_even (x * ?s) \<le> round_half_even (y * ?s)" by (rule rhe_mono)
  then show ?thesis
    by (simp add: round_double_pos [OF assms(1)] round_double_pos [OF y] True divide_right_mono)
next
  case False
  from assms have y: "0 < y" by simp
  from False binade_mono [OF assms] have "binade x + 1 \<le> binade y" by simp
  then have "(2::rat) powi (binade x + 1) \<le> 2 powi binade y" by (rule power_int_increasing) simp
  with round_double_pos_bounds(2) [OF assms(1)] round_double_pos_bounds(1) [OF y]
  show ?thesis by linarith
qed

lemma round_double_nonneg:
  assumes "0 \<le> x"
  shows "0 \<le> round_double x"
proof (cases "x = 0")
  case True
  then show ?thesis by (simp add: round_double_def)
next
  case False
  with assms have "0 < x" by simp
  from round_double_pos_bounds(1) [OF this] show ?thesis
    by (rule order_trans [rotated]) simp
qed

lemma round_double_mono:
  assumes "0 \<le> x" and "x \<le> y"
  shows "round_double x \<le> round_double y"
proof (cases "x = 0")
  case True
  with assms round_double_nonneg [of y] show ?thesis by (simp add: round_double_def)
next
  case False
  with assms have "0 < x" by simp
  then show ?thesis using assms(2) by (rule round_double_mono_pos)
qed

lemma round_double_minus: "round_double (- x) = - round_double x"
  by (simp add: round_double_def Let_def)

lemma round_double_exact:
  assumes "0 < x" and "x * 2 powi (52 - binade x) = of_int m"
  shows "round_double x = x"
proof -
  have "round_double x = of_int m / 2 powi (52 - binade x)"
    by (simp add: round_double_pos [OF assms(1)] assms(2) rhe_of_int)
  also have "\<dots> = x"
    by (simp flip: assms(2))
  finally show ?thesis .
qed

lemma round_double_of_nat_int:
  assumes "0 \<le> n" and "n < 2 ^ 53"
  shows "round_double (of_int n) = of_int n"
proof (cases "n = 0")
  case True
  then show ?thesis by (simp add: round_double_def)
next
  case False
  with assms have pos: "(0::rat) < of_int n" by simp
  let ?e = "binade (of_int n)"
  have "(of_int n :: rat) < of_int (2 ^ 53)" using assms(2) by (simp only: of_int_less_iff)
  then have "(of_int n :: rat) < 2 powi 53" by simp
  with binade_bounds [OF pos] have "(2::rat) powi ?e < 2 powi 53" by simp
  then have "?e < 53" by (rule pow2_less_D)
  then have k: "0 \<le> 52 - ?e" by simp
  then have "(2::rat) powi (52 - ?e) = of_int (2 ^ nat (52 - ?e))"
    by (simp add: power_int_def)
  then have "of_int n * (2::rat) powi (52 - ?e) = of_int (n * 2 ^ nat (52 - ?e))"
    by simp
  with pos show ?thesis by (rule round_double_exact)
qed

lemma round_double_of_int:
  assumes "\<bar>n\<bar> < 2 ^ 53"
  shows "round_double (of_int n) = of_int n"
proof (cases "0 \<le> n")
  case True
  with assms show ?thesis by (simp add: round_double_of_nat_int)
next
  case False
  with assms have "0 \<le> - n" and "- n < 2 ^ 53" by simp_all
  then have "round_double (of_int (- n)) = of_int (- n)" by (rule round_double_of_nat_int)
  then show ?thesis by (simp add: round_double_minus)
qed

lemma float_of_int_sint: "float_of_int (sint (p :: 32 word)) = of_int (sint p)"
proof -
  have "- (2 ^ 31) \<le> sint p" and "sint p < 2 ^ 31"
    using sint_range_size [of p] by (simp_all add: word_size)
  then have "\<bar>sint p\<bar> < 2 ^ 53" by simp
  then show ?thesis unfolding float_of_int_def by (rule round_double_of_int)
qed

lemma round_double_err:
  assumes "0 < x"
  shows "\<bar>round_double x - x\<bar> \<le> 2 powi (binade x - 53)"
proof -
  let ?s = "(2::rat) powi (52 - binade x)"
  have s: "0 < ?s" by simp
  have "round_double x - x = (of_int (round_half_even (x * ?s)) - x * ?s) / ?s"
    using s by (simp add: round_double_pos [OF assms] diff_divide_distrib)
  then have "\<bar>round_double x - x\<bar> = \<bar>of_int (round_half_even (x * ?s)) - x * ?s\<bar> / ?s"
    using s by (simp only: abs_divide abs_of_pos)
  also have "\<dots> \<le> (1 / 2) / ?s"
    using rhe_err [of "x * ?s"] by (rule divide_right_mono) simp
  also have "\<dots> = 2 powi (- 1) / ?s" by (simp add: power_int_minus)
  also have "\<dots> = 2 powi (- 1 - (52 - binade x))"
    by (rule power_int_diff [symmetric]) simp
  also have "- 1 - (52 - binade x) = binade x - 53" by simp
  finally show ?thesis .
qed

lemma lit_0_8_val: "lit_0_8 = 3602879701896397 / 4503599627370496"
  by code_simp

lemma lit_0_7_val: "lit_0_7 = 3152519739159347 / 4503599627370496"
  by code_simp

lemma lit_0_5_val: "lit_0_5 = 1 / 2"
  by code_simp

lemma float_100: "float_of_int 100 = 100"
  using round_double_of_int [of 100] by (simp add: float_of_int_def)

lemma round_double_1: "round_double 1 = 1"
  using round_double_of_int [of 1] by simp

text \<open>A product with a factor between 0 and 1 stays between 0 and the other factor.\<close>

lemma float_mul_bounds:
  assumes "0 \<le> n" and "n < 2 ^ 53" and "0 \<le> c" and "c \<le> 1"
  shows "0 \<le> float_mul (of_int n) c" and "float_mul (of_int n) c \<le> of_int n"
proof -
  have n: "(0::rat) \<le> of_int n" using assms(1) by simp
  then have "0 \<le> of_int n * c" using assms(3) by simp
  then show "0 \<le> float_mul (of_int n) c"
    unfolding float_mul_def by (rule round_double_nonneg)
  have "of_int n * c \<le> of_int n * 1" using n assms(4) by (rule mult_left_mono [rotated])
  then have "of_int n * c \<le> of_int n" by simp
  with \<open>0 \<le> of_int n * c\<close> have "round_double (of_int n * c) \<le> round_double (of_int n)"
    by (rule round_double_mono)
  then show "float_mul (of_int n) c \<le> of_int n"
    by (simp add: float_mul_def round_double_of_nat_int [OF assms(1,2)])
qed

lemma py_int_bounds:
  assumes "0 \<le> x" and "x \<le> of_int n"
  shows "0 \<le> py_int x" and "py_int x \<le> n"
  using assms by (simp_all add: py_int_def floor_le_iff)

lemma partial_credit_bounds:
  assumes "0 \<le> sint p" and "0 \<le> c" and "c \<le> 1"
  shows "0 \<le> partial_credit p c" and "partial_credit p c \<le> sint p"
proof -
  have "sint p < 2 ^ 31" using sint_range_size [of p] by (simp add: word_size)
  then have "sint p < 2 ^ 53" by simp
  from float_mul_bounds [OF assms(1) this assms(2,3)]
  have "0 \<le> float_mul (of_int (sint p)) c" and "float_mul (of_int (sint p)) c \<le> of_int (sint p)" .
  then have "0 \<le> py_int (float_mul (of_int (sint p)) c)"
    and "py_int (float_mul (of_int (sint p)) c) \<le> sint p"
    by (rule py_int_bounds)+
  then show "0 \<le> partial_credit p c" and "partial_credit p c \<le> sint p"
    unfolding partial_credit_def float_of_int_sint .
qed

section \<open>Strings, and the absence of exceptions\<close>

lemma split_from_Nil_iff: "split_from cur s = [] \<longleftrightarrow> cur = [] \<and> (\<forall>c\<in>set s. isspace c)"
  by (induction s arbitrary: cur) auto

lemma split_Nil_iff: "split s = [] \<longleftrightarrow> (\<forall>c\<in>set s. isspace c)"
  by (simp add: split_def split_from_Nil_iff)

lemma all_dropWhile_iff: "(\<forall>x\<in>set (dropWhile P s). P x) \<longleftrightarrow> (\<forall>x\<in>set s. P x)"
  by (induction s) auto

lemma strip_Nil_iff: "strip s = [] \<longleftrightarrow> (\<forall>c\<in>set s. isspace c)"
  by (simp add: strip_def dropWhile_eq_Nil_conv all_dropWhile_iff)

lemma strip_nonspace:
  assumes "strip s \<noteq> []"
  shows "\<exists>c\<in>set (strip s). \<not> isspace c"
proof -
  let ?t = "dropWhile isspace (rev (dropWhile isspace s))"
  from assms have t: "?t \<noteq> []" by (simp add: strip_def)
  then have "\<not> isspace (hd ?t)" by (rule hd_dropWhile)
  moreover from t have "hd ?t \<in> set (strip s)" by (simp add: strip_def)
  ultimately show ?thesis by blast
qed

lemma split_strip_nonempty:
  assumes "strip s \<noteq> []"
  shows "split (strip s) \<noteq> []"
  using strip_nonspace [OF assms] by (auto simp add: split_Nil_iff)

lemma isspace_lower_char: "isspace (lower_char c) = isspace c"
proof -
  define n where "n = (of_char c :: nat)"
  show ?thesis
  proof (cases "(65 \<le> n \<and> n \<le> 90) \<or> (192 \<le> n \<and> n \<le> 222 \<and> n \<noteq> 215)")
    case True
    then have "(n + 32) mod 256 = n + 32" by auto
    with True show ?thesis
      by (auto simp add: isspace_def lower_char_def Let_def simp flip: n_def)
  next
    case False
    then show ?thesis by (auto simp add: lower_char_def Let_def n_def)
  qed
qed

lemma strip_lower_Nil_iff: "strip (lower s) = [] \<longleftrightarrow> strip s = []"
  by (simp add: strip_Nil_iff lower_def isspace_lower_char)

lemma truediv_ok: "b \<noteq> 0 \<Longrightarrow> py_truediv a b = Inr (round_double (of_int a / of_int b))"
  by (simp add: py_truediv_def)

lemma grade_fill_blank_loop_total: "\<exists>r. grade_fill_blank_loop u cas = Inr r"
proof (induction cas)
  case Nil
  show ?case by simp
next
  case (Cons ca cas)
  let ?c = "strip (lower (answer_text ca))"
  show ?case
  proof (cases "u = ?c \<or> py_in ?c u \<or> py_in u ?c")
    case True
    then show ?thesis by (auto simp add: Let_def)
  next
    case False
    then have "?c \<noteq> []" by (auto simp add: py_in_def)
    then have "split ?c \<noteq> []" by (rule split_strip_nonempty)
    then have "card (set (split ?c)) \<noteq> 0" by simp
    with False Cons show ?thesis
      by (auto simp add: Let_def py_truediv_def)
  qed
qed

lemma grade_fill_blank_total: "\<exists>r. grade_fill_blank ua cas = Inr r"
proof -
  obtain r where "grade_fill_blank_loop (strip (lower ua)) cas = Inr r"
    using grade_fill_blank_loop_total by blast
  then show ?thesis
    by (cases r) (auto simp add: grade_fill_blank_def)
qed

lemma grade_mcq_total: "\<exists>r. grade_mcq ua cas = Inr r"
  by (auto simp add: grade_mcq_def Let_def split: option.split)

lemma grade_true_false_total: "\<exists>r. grade_true_false ua cas = Inr r"
  by (auto simp add: grade_true_false_def split: option.split)

lemma grade_essay_total: "\<exists>r. grade_essay ua cas = Inr r"
  by (auto simp add: grade_essay_def Let_def py_truediv_def split: prod.split)

lemma grade_text_comparison_total: "\<exists>r. grade_text_comparison ua cas = Inr r"
  by (cases cas) (auto simp add: grade_text_comparison_def split: option.split)

lemma grade_single_answer_total: "\<exists>r. grade_single_answer q ua cas = Inr r"
  unfolding grade_single_answer_def
  using grade_mcq_total grade_true_false_total grade_fill_blank_total grade_essay_total
    grade_text_comparison_total
  by simp

lemma percent_total: "t \<noteq> 0 \<Longrightarrow> \<exists>s. percent e t = Inr s"
  by (simp add: percent_def py_truediv_def)

lemma breakdown_rows_total: "\<exists>rows. breakdown_rows xs = Inr rows"
proof (induction xs)
  case Nil
  show ?case by simp
next
  case (Cons x xs)
  obtain q_type possible earned n where x: "x = (q_type, possible, earned, n)"
    by (cases x)
  from Cons obtain rows where "breakdown_rows xs = Inr rows" by blast
  then show ?case
    by (simp add: x percent_def py_truediv_def)
qed

lemma questions_of_Nil_iff:
  "questions_of d qz = [] \<longleftrightarrow> \<not> (\<exists>q\<in>set (quiz_questions d). quiz_id q = qz)"
proof -
  have "questions_of d qz = [] \<longleftrightarrow> set (questions_of d qz) = {}" by simp
  also have "\<dots> \<longleftrightarrow> \<not> (\<exists>q\<in>set (quiz_questions d). quiz_id q = qz)"
    by (auto simp add: questions_of_def)
  finally show ?thesis .
qed

section \<open>Scores and partial credit\<close>

lemma round_double_0: "round_double 0 = 0"
  by (simp add: round_double_def)

lemma round_double_100: "round_double 100 = 100"
  using round_double_of_int [of 100] by simp

lemma round_double_unit:
  assumes "0 \<le> x" and "x \<le> 1"
  shows "0 \<le> round_double x" and "round_double x \<le> 1"
proof -
  show "0 \<le> round_double x" using assms(1) by (rule round_double_nonneg)
  from round_double_mono [OF assms] show "round_double x \<le> 1" by (simp only: round_double_1)
qed

lemma truediv_unit:
  assumes "0 \<le> a" and "a \<le> b" and "0 < b"
  shows "\<exists>r. py_truediv a b = Inr r \<and> 0 \<le> r \<and> r \<le> 1"
proof -
  have "(0::rat) \<le> of_int a / of_int b" and "of_int a / of_int b \<le> (1::rat)"
    using assms by (simp_all add: divide_le_eq_1)
  then have "0 \<le> round_double (of_int a / of_int b)" and "round_double (of_int a / of_int b) \<le> 1"
    by (rule round_double_unit)+
  with assms(3) show ?thesis by (simp add: py_truediv_def)
qed

lemma percent_bounds:
  assumes "0 \<le> a" and "a \<le> b" and "0 < b"
  shows "\<exists>s. percent a b = Inr s \<and> 0 \<le> s \<and> s \<le> 100"
proof -
  from truediv_unit [OF assms] obtain r where
    r: "py_truediv a b = Inr r" and r0: "0 \<le> r" and r1: "r \<le> 1" by blast
  have "0 \<le> r * 100" and "r * 100 \<le> 100" using r0 r1 by simp_all
  then have "0 \<le> round_double (r * 100)" and "round_double (r * 100) \<le> round_double 100"
    by (simp_all add: round_double_nonneg round_double_mono)
  then show ?thesis
    by (simp add: percent_def r float_mul_def float_100 round_double_100)
qed

lemma py_round2_bounds:
  assumes "0 \<le> s" and "s \<le> 100"
  shows "0 \<le> py_round2 s" and "py_round2 s \<le> 100"
proof -
  let ?m = "round_half_even (s * 100)"
  have "round_half_even (of_int 0) \<le> ?m" using assms(1) by (intro rhe_mono) simp
  then have m0: "0 \<le> ?m" by (simp only: rhe_of_int)
  have "?m \<le> round_half_even (of_int 10000)" using assms(2) by (intro rhe_mono) simp
  then have m1: "?m \<le> 10000" by (simp only: rhe_of_int)
  have a: "(0::rat) \<le> of_int ?m / 100" using m0 by simp
  have b: "of_int ?m / 100 \<le> (100::rat)" using m1 by simp
  show "0 \<le> py_round2 s" unfolding py_round2_def using a by (rule round_double_nonneg)
  from round_double_mono [OF a b] show "py_round2 s \<le> 100"
    by (simp only: py_round2_def round_double_100)
qed

lemma py_round2_0: "py_round2 0 = 0"
  by (simp add: py_round2_def round_half_even_def round_double_def)

text \<open>\<open>int(p * 0.8)\<close> is four fifths of \<open>p\<close>, truncated.\<close>

lemma py_int_minus: "py_int (- x) = - py_int x"
  by (auto simp add: py_int_def ceiling_def)

lemma float_mul_minus: "float_mul (- x) y = - float_mul x y"
  by (simp add: float_mul_def round_double_minus)

lemma round_double_err_small:
  assumes "0 < x" and "x < 2 ^ 31"
  shows "\<bar>round_double x - x\<bar> \<le> 1 / 2 ^ 23"
proof -
  have "x < 2 powi 31" using assms(2) by simp
  with binade_bounds [OF assms(1)] have "(2::rat) powi binade x < 2 powi 31" by simp
  then have "binade x < 31" by (rule pow2_less_D)
  then have "binade x - 53 \<le> - 23" by simp
  then have "(2::rat) powi (binade x - 53) \<le> 2 powi (- 23)"
    by (rule power_int_increasing) simp
  also have "(2::rat) powi (- 23) = 1 / 2 ^ 23" by code_simp
  finally have "(2::rat) powi (binade x - 53) \<le> 1 / 2 ^ 23" .
  with round_double_err [OF assms(1)] show ?thesis by (rule order_trans)
qed

lemma credit_0_8_nonneg:
  assumes "0 \<le> n" and "n < 2 ^ 31"
  shows "py_int (float_mul (of_int n) lit_0_8) = (4 * n) div 5"
proof (cases "n = 0")
  case True
  then show ?thesis by (simp add: float_mul_def round_double_0 py_int_def)
next
  case False
  with assms have n: "0 < n" by simp
  define x :: rat where "x = of_int n * lit_0_8"
  define m where "m = (4 * n) div 5"
  have m0: "0 \<le> m" using n by (simp add: m_def)
  have "m \<le> 4 * n" using n by (simp add: m_def)
  with assms(2) have m53: "m < 2 ^ 53" by simp
  have "m * 5 \<le> 4 * n" and "4 * n \<le> m * 5 + 4" unfolding m_def by presburger+
  then have "(of_int (m * 5) :: rat) \<le> of_int (4 * n)" and "(of_int (4 * n) :: rat) \<le> of_int (m * 5 + 4)"
    by (simp_all only: of_int_le_iff)
  then have lo: "of_int m \<le> (4 * of_int n / 5 :: rat)" and hi: "(4 * of_int n / 5 :: rat) \<le> of_int m + 4 / 5"
    by simp_all
  have nr: "(of_int n :: rat) < 2 ^ 31" using assms(2) by (metis of_int_less_iff of_int_numeral of_int_power)
  have n0: "(0::rat) < of_int n" using n by simp
  have xeq: "x = 4 * of_int n / 5 + of_int n / (5 * 2 ^ 52)"
    by (simp add: x_def lit_0_8_val field_simps)
  have pos: "0 < x" using n0 by (simp add: x_def lit_0_8_val)
  have xn: "x \<le> of_int n" using n0 by (simp add: x_def lit_0_8_val)
  with nr have x31: "x < 2 ^ 31" by simp
  have tiny: "of_int n / (5 * 2 ^ 52) < (1 / 2 ^ 21 :: rat)" using nr by (simp add: field_simps)
  have mx: "of_int m \<le> x" using lo n0 by (simp add: xeq)
  have "0 \<le> (of_int m :: rat)" using m0 by simp
  from round_double_mono [OF this mx] have rlo: "of_int m \<le> round_double x"
    by (simp only: round_double_of_nat_int [OF m0 m53])
  from round_double_err_small [OF pos x31] have "round_double x \<le> x + 1 / 2 ^ 23" by linarith
  also have "\<dots> < of_int m + 4 / 5 + 1 / 2 ^ 21 + 1 / 2 ^ 23" using hi tiny by (simp add: xeq)
  also have "\<dots> < of_int m + 1" by simp
  finally have rhi: "round_double x < of_int m + 1" .
  from rlo rhi have "\<lfloor>round_double x\<rfloor> = m" by (simp add: floor_unique)
  moreover have "0 \<le> round_double x" using pos by (simp add: round_double_nonneg)
  ultimately show ?thesis by (simp add: float_mul_def py_int_def flip: x_def m_def)
qed

lemma py_int_four_fifths:
  assumes "0 \<le> n"
  shows "py_int (4 / 5 * of_int n) = (4 * n) div 5"
proof -
  have "(4 * n) div 5 = \<lfloor>(of_int (4 * n) / of_int 5 :: rat)\<rfloor>"
    by (rule floor_divide_of_int_eq [symmetric])
  moreover have "(0::rat) \<le> 4 / 5 * of_int n" using assms by simp
  ultimately show ?thesis by (simp add: py_int_def)
qed

lemma credit_0_8:
  assumes "- (2 ^ 31) \<le> n" and "n < 2 ^ 31"
  shows "py_int (float_mul (of_int n) lit_0_8) = py_int (4 / 5 * of_int n)"
proof (cases "0 \<le> n")
  case True
  then show ?thesis by (simp only: credit_0_8_nonneg [OF True assms(2)] py_int_four_fifths)
next
  case False
  define k where "k = - n"
  have k: "0 \<le> k" "k \<le> 2 ^ 31" using False assms(1) by (simp_all add: k_def)
  have n: "n = - k" by (simp add: k_def)
  have "py_int (float_mul (of_int k) lit_0_8) = py_int (4 / 5 * of_int k)"
  proof (cases "k = 2 ^ 31")
    case True
    show ?thesis unfolding True by code_simp
  next
    case False
    with k have "k < 2 ^ 31" by simp
    with k(1) show ?thesis by (simp only: credit_0_8_nonneg py_int_four_fifths)
  qed
  then have "- py_int (float_mul (of_int k) lit_0_8) = - py_int (4 / 5 * of_int k)" by simp
  then show ?thesis
    by (simp only: n of_int_minus float_mul_minus py_int_minus mult_minus_right)
qed

lemma partial_credit_0_8:
  "partial_credit p lit_0_8 = py_int (4 / 5 * of_int (sint p))"
proof -
  have "- (2 ^ 31) \<le> sint p" and "sint p < 2 ^ 31"
    using sint_range_size [of p] by (simp_all add: word_size)
  then have "py_int (float_mul (of_int (sint p)) lit_0_8) = py_int (4 / 5 * of_int (sint p))"
    by (rule credit_0_8)
  then show ?thesis unfolding partial_credit_def float_of_int_sint .
qed

section \<open>Points awarded by the graders\<close>

lemma lit_unit: "0 \<le> lit_0_8" "lit_0_8 \<le> 1" "0 \<le> lit_0_7" "lit_0_7 \<le> 1"
  by (simp_all add: lit_0_8_val lit_0_7_val)

text \<open>A grader that answers ``incorrect'' awards no point.\<close>

lemma grade_mcq_exact_correct: "grade_mcq_exact u cas = Some (c, p, f) \<Longrightarrow> c"
  by (induction cas) (auto split: if_splits)

lemma grade_mcq_contained_correct: "grade_mcq_contained u cas = Some (c, p, f) \<Longrightarrow> c"
  by (induction cas) (auto split: if_splits)

lemma grade_true_false_loop_correct: "grade_true_false_loop u cas = Some (c, p, f) \<Longrightarrow> c"
  by (induction cas) (auto simp add: Let_def split: if_splits)

lemma grade_fill_blank_loop_correct: "grade_fill_blank_loop u cas = Inr (Some (c, p, f)) \<Longrightarrow> c"
  by (induction cas) (auto simp add: Let_def split: if_splits sum.splits)

lemma grade_text_comparison_loop_correct: "grade_text_comparison_loop u cas = Some (c, p, f) \<Longrightarrow> c"
  by (induction cas) (auto simp add: Let_def split: if_splits)

lemma grade_single_answer_incorrect:
  assumes "grade_single_answer q ua cas = Inr (False, p, f)"
  shows "p = 0"
proof (cases "question_type q")
  case MCQ
  with assms show ?thesis
    by (auto simp add: grade_single_answer_def grade_mcq_def Let_def split: option.splits
          dest: grade_mcq_exact_correct grade_mcq_contained_correct)
next
  case TF
  with assms show ?thesis
    by (auto simp add: grade_single_answer_def grade_true_false_def split: option.splits
          dest: grade_true_false_loop_correct)
next
  case FILL_BLANK
  with assms show ?thesis
    by (auto simp add: grade_single_answer_def grade_fill_blank_def
          split: option.splits sum.splits if_splits dest: grade_fill_blank_loop_correct)
next
  case ESSAY
  with assms show ?thesis
    by (auto simp add: grade_single_answer_def grade_essay_def Let_def
          split: prod.splits sum.splits if_splits)
qed

text \<open>Points stay between 0 and the bound of the entries.\<close>

lemma grade_mcq_exact_bounds:
  assumes "\<forall>ca\<in>set cas. 0 \<le> sint (points_awarded ca) \<and> sint (points_awarded ca) \<le> P"
    and "grade_mcq_exact u cas = Some (c, p, f)"
  shows "0 \<le> p \<and> p \<le> P"
  using assms by (induction cas) (auto split: if_splits)

lemma grade_mcq_contained_bounds:
  assumes "\<forall>ca\<in>set cas. 0 \<le> sint (points_awarded ca) \<and> sint (points_awarded ca) \<le> P"
    and "grade_mcq_contained u cas = Some (c, p, f)"
  shows "0 \<le> p \<and> p \<le> P"
  using assms by (induction cas) (auto split: if_splits)

lemma grade_true_false_loop_bounds:
  assumes "\<forall>ca\<in>set cas. 0 \<le> sint (points_awarded ca) \<and> sint (points_awarded ca) \<le> P"
    and "grade_true_false_loop u cas = Some (c, p, f)"
  shows "0 \<le> p \<and> p \<le> P"
  using assms by (induction cas) (auto simp add: Let_def split: if_splits)

lemma partial_credit_le:
  assumes "0 \<le> sint w" and "sint w \<le> P" and "0 \<le> k" and "k \<le> 1"
  shows "0 \<le> partial_credit w k \<and> partial_credit w k \<le> P"
  using partial_credit_bounds [OF assms(1,3,4)] assms(2) by simp

lemma grade_fill_blank_loop_bounds:
  assumes "\<forall>ca\<in>set cas. 0 \<le> sint (points_awarded ca) \<and> sint (points_awarded ca) \<le> P"
    and "grade_fill_blank_loop u cas = Inr (Some (c, p, f))"
  shows "0 \<le> p \<and> p \<le> P"
  using assms
proof (induction cas)
  case Nil
  then show ?case by simp
next
  case (Cons ca cas)
  from Cons.prems(1) have b: "0 \<le> sint (points_awarded ca)" "sint (points_awarded ca) \<le> P"
    by simp_all
  note pc8 = partial_credit_le [OF b lit_unit(1,2)]
  note pc7 = partial_credit_le [OF b lit_unit(3,4)]
  from Cons show ?case
    using b pc8 pc7 by (auto simp add: Let_def split: if_splits sum.splits)
qed

lemma grade_text_comparison_loop_bounds:
  assumes "\<forall>ca\<in>set cas. 0 \<le> sint (points_awarded ca) \<and> sint (points_awarded ca) \<le> P"
    and "grade_text_comparison_loop u cas = Some (c, p, f)"
  shows "0 \<le> p \<and> p \<le> P"
  using assms
proof (induction cas)
  case Nil
  then show ?case by simp
next
  case (Cons ca cas)
  from Cons.prems(1) have b: "0 \<le> sint (points_awarded ca)" "sint (points_awarded ca) \<le> P"
    by simp_all
  note pc8 = partial_credit_le [OF b lit_unit(1,2)]
  from Cons show ?case
    using b pc8 by (auto simp add: Let_def split: if_splits)
qed

lemma essay_count_le:
  assumes "essay_count ua cas (a, b) = (nf, nt)" and "a \<le> b"
  shows "nf \<le> nt"
  using assms
proof (induction cas arbitrary: a b)
  case Nil
  then show ?case by simp
next
  case (Cons ca cas)
  from Cons.prems show ?case
    by (auto intro!: Cons.IH [where a = "a + length (filter (\<lambda>term. py_in (lower term) (lower ua)) (key_terms ca))" and b = "b + length (key_terms ca)"] add_mono)
qed

lemma essay_points_bounds:
  fixes w :: "32 word"
  assumes "0 \<le> sint w" and "sint w \<le> P" and "nf \<le> nt" and "0 < nt"
    and "py_truediv (int nf) (int nt) = Inr r"
  shows "0 \<le> py_int (float_mul (float_of_int (sint w)) (min r 1))"
    and "py_int (float_mul (float_of_int (sint w)) (min r 1)) \<le> P"
proof -
  from truediv_unit [of "int nf" "int nt"] assms(3,4,5)
  have r: "0 \<le> r" "r \<le> 1" by auto
  then have m: "0 \<le> min r 1" "min r 1 \<le> 1" by simp_all
  have "sint w < 2 ^ 31" using sint_range_size [of w] by (simp add: word_size)
  then have "sint w < 2 ^ 53" by simp
  from float_mul_bounds [OF assms(1) this m]
  have "0 \<le> float_mul (of_int (sint w)) (min r 1)"
    and "float_mul (of_int (sint w)) (min r 1) \<le> of_int (sint w)" .
  then have "0 \<le> py_int (float_mul (of_int (sint w)) (min r 1))"
    and "py_int (float_mul (of_int (sint w)) (min r 1)) \<le> sint w"
    by (rule py_int_bounds)+
  with assms(2) show "0 \<le> py_int (float_mul (float_of_int (sint w)) (min r 1))"
    and "py_int (float_mul (float_of_int (sint w)) (min r 1)) \<le> P"
    unfolding float_of_int_sint by simp_all
qed

lemma grade_essay_bounds:
  assumes "\<forall>ca\<in>set cas. 0 \<le> sint (points_awarded ca) \<and> sint (points_awarded ca) \<le> P"
    and "1 \<le> P"
    and "grade_essay ua cas = Inr (c, p, f)"
  shows "0 \<le> p \<and> p \<le> P"
proof (cases "strip ua = [] \<or> length ua < 50")
  case True
  with assms(2,3) show ?thesis by (auto simp add: grade_essay_def split: if_splits)
next
  case False
  obtain nf nt where ec: "essay_count ua cas (0, 0) = (nf, nt)"
    by (cases "essay_count ua cas (0, 0)")
  from essay_count_le [OF ec] have ft: "nf \<le> nt" by simp
  show ?thesis
  proof (cases "0 < nt")
    case t: True
    then obtain r where r: "py_truediv (int nf) (int nt) = Inr r"
      by (auto simp add: py_truediv_def)
    show ?thesis
    proof (cases cas)
      case Nil
      with False ec t r assms(2,3) show ?thesis by (auto simp add: grade_essay_def)
    next
      case (Cons ca rest)
      with assms(1) have b: "0 \<le> sint (points_awarded ca)" "sint (points_awarded ca) \<le> P"
        by simp_all
      from essay_points_bounds [OF b ft t r] False ec t r Cons assms(3)
      show ?thesis by (auto simp add: grade_essay_def)
    qed
  next
    case f: False
    with False ec assms(2,3) show ?thesis by (auto simp add: grade_essay_def)
  qed
qed

lemma grade_single_answer_bounds:
  assumes "\<forall>ca\<in>set cas. 0 \<le> sint (points_awarded ca) \<and> sint (points_awarded ca) \<le> P"
    and "1 \<le> P"
    and "grade_single_answer q ua cas = Inr (c, p, f)"
  shows "0 \<le> p \<and> p \<le> P"
proof (cases "question_type q")
  case MCQ
  with assms(2,3) grade_mcq_exact_bounds [OF assms(1)] grade_mcq_contained_bounds [OF assms(1)]
  show ?thesis
    by (auto simp add: grade_single_answer_def grade_mcq_def Let_def split: option.splits)
next
  case TF
  with assms(2,3) grade_true_false_loop_bounds [OF assms(1)] show ?thesis
    by (auto simp add: grade_single_answer_def grade_true_false_def split: option.splits)
next
  case FILL_BLANK
  with assms(2,3) grade_fill_blank_loop_bounds [OF assms(1)] show ?thesis
    by (auto simp add: grade_single_answer_def grade_fill_blank_def
          split: option.splits sum.splits if_splits)
next
  case ESSAY
  with assms(3) have "grade_essay ua cas = Inr (c, p, f)"
    by (simp add: grade_single_answer_def)
  with assms(1,2) show ?thesis by (rule grade_essay_bounds)
qed

section \<open>The loop over the submitted answers\<close>

lemma fold_question_map:
  "fold (\<lambda>q m. m(q_id q \<mapsto> q)) qs m0 qid = Some q \<Longrightarrow>
     (q \<in> set qs \<and> q_id q = qid) \<or> m0 qid = Some q"
  by (induction qs arbitrary: m0) (fastforce split: if_splits)+


lemma question_map_of_Some:
  assumes "question_map_of qs qid = Some q"
  shows "q \<in> set qs" and "q_id q = qid"
  using fold_question_map [of qs Map.empty qid q] assms by (simp_all add: question_map_of_def)


lemma set_questions_of: "set (questions_of d qz) = {q \<in> set (quiz_questions d). quiz_id q = qz}"
  by (auto simp add: questions_of_def)



text \<open>The three outcomes of the lookup of a question id in the map.\<close>

lemma dict_lookup_unhashable: "\<not> hashable v \<Longrightarrow> dict_lookup m v = Inl TypeError"
  by (cases v) (simp_all add: hashable_def dict_lookup_def)

lemma dict_lookup_miss:
  assumes "hashable (dict_get a ''question_id'' PyNone)" and "\<not> looked_up m a"
  shows "dict_lookup m (dict_get a ''question_id'' PyNone) = Inr None"
  using assms
  by (cases "dict_get a ''question_id'' PyNone")
     (simp_all add: hashable_def dict_lookup_def looked_up_def)

lemma dict_lookup_hit:
  assumes "looked_up m a"
  shows "\<exists>qid q. dict_get a ''question_id'' PyNone = PyUUID qid \<and> m qid = Some q \<and>
           dict_lookup m (dict_get a ''question_id'' PyNone) = Inr (Some (qid, q))"
  using assms
  by (cases "dict_get a ''question_id'' PyNone") (auto simp add: dict_lookup_def looked_up_def)

lemma str_methods_not_str: "\<not> is_str v \<Longrightarrow> str_methods v = Inl AttributeError"
  by (cases v) (simp_all add: is_str_def str_methods_def)

lemma str_methods_str: "is_str v \<Longrightarrow> \<exists>text. v = PyStr text \<and> str_methods v = Inr text"
  by (cases v) (simp_all add: is_str_def str_methods_def)

text \<open>One round of the loop over the submitted answers.\<close>

lemma grade_answers_unhashable:
  assumes "\<not> hashable (dict_get a ''question_id'' PyNone)"
  shows "grade_answers d m (a # uas) st = Inl TypeError"
  by (cases st) (simp add: Let_def dict_lookup_unhashable [OF assms])

lemma grade_answers_skip:
  assumes "hashable (dict_get a ''question_id'' PyNone)" and "\<not> looked_up m a"
  shows "grade_answers d m (a # uas) st = grade_answers d m uas st"
  by (cases st) (simp add: Let_def dict_lookup_miss [OF assms])

lemma grade_answers_not_str:
  assumes "looked_up m a" and "\<not> is_str (dict_get a ''answer_text'' (PyStr []))"
  shows "grade_answers d m (a # uas) st = Inl AttributeError"
  using dict_lookup_hit [OF assms(1)] str_methods_not_str [OF assms(2)]
  by (cases st) (auto simp add: Let_def)

lemma grade_answers_step:
  assumes "dict_get a ''question_id'' PyNone = PyUUID qid" and "m qid = Some q"
    and "dict_get a ''answer_text'' (PyStr []) = PyStr ua"
    and "grade_single_answer q ua (correct_answers_of d qid) = Inr (c, p, f)"
  shows "grade_answers d m (a # uas) (rs, t, e) =
           grade_answers d m uas
             (rs @ [\<lparr>ga_question_id = qid,
                     ga_question_text = question_text q,
                     ga_user_answer = ua,
                     ga_is_correct = c,
                     ga_points_awarded = p,
                     ga_points_possible = sint (points q),
                     ga_feedback = f,
                     ga_question_type = qt_value (question_type q)\<rparr>],
              t + sint (points q), if c then e + p else e)"
  using assms by (simp add: Let_def dict_lookup_def str_methods_def)

text \<open>
  What the loop returns: one result for each submitted answer that names a question of
  the map, in order, each made from the question and the grade of its answer.  It
  returns only when every question id is hashable and the text of every answer to a
  question of the map is a string.
\<close>

lemma grade_answers_results:
  assumes "grade_answers d m uas (rs0, t0, e0) = Inr (rs, t, e)"
  shows "\<exists>new. rs = rs0 @ new \<and>
           t = t0 + sum_list (map ga_points_possible new) \<and>
           e = e0 + sum_list (map ga_points_awarded new) \<and>
           map (PyUUID \<circ> ga_question_id) new =
             map (\<lambda>a. dict_get a ''question_id'' PyNone) (filter (looked_up m) uas) \<and>
           map (PyStr \<circ> ga_user_answer) new =
             map (\<lambda>a. dict_get a ''answer_text'' (PyStr [])) (filter (looked_up m) uas) \<and>
           (\<forall>r\<in>set new. \<exists>q c f.
              m (ga_question_id r) = Some q \<and>
              grade_single_answer q (ga_user_answer r) (correct_answers_of d (ga_question_id r))
                = Inr (c, ga_points_awarded r, f) \<and>
              ga_is_correct r = c \<and> ga_feedback r = f \<and>
              ga_points_possible r = sint (points q))"
  using assms
proof (induction uas arbitrary: rs0 t0 e0)
  case Nil
  then show ?case by simp
next
  case (Cons a uas)
  have h: "hashable (dict_get a ''question_id'' PyNone)"
    using Cons.prems grade_answers_unhashable [of a d m uas "(rs0, t0, e0)"] by auto
  show ?case
  proof (cases "looked_up m a")
    case False
    from Cons.prems have "grade_answers d m uas (rs0, t0, e0) = Inr (rs, t, e)"
      by (simp only: grade_answers_skip [OF h False])
    moreover from False have "filter (looked_up m) (a # uas) = filter (looked_up m) uas"
      by simp
    ultimately show ?thesis using Cons.IH by (simp only:)
  next
    case True
    from dict_lookup_hit [OF True] obtain qid q where
      qid: "dict_get a ''question_id'' PyNone = PyUUID qid" and q: "m qid = Some q"
      by blast
    have "is_str (dict_get a ''answer_text'' (PyStr []))"
      using Cons.prems grade_answers_not_str [OF True, of d uas "(rs0, t0, e0)"] by auto
    from str_methods_str [OF this] obtain ua where
      ua: "dict_get a ''answer_text'' (PyStr []) = PyStr ua" by blast
    obtain c p f where g: "grade_single_answer q ua (correct_answers_of d qid) = Inr (c, p, f)"
      using grade_single_answer_total by (metis prod_cases3)
    have p: "\<not> c \<Longrightarrow> p = 0" using g by (cases c) (auto dest: grade_single_answer_incorrect)
    let ?r = "\<lparr>ga_question_id = qid, ga_question_text = question_text q, ga_user_answer = ua,
                ga_is_correct = c, ga_points_awarded = p, ga_points_possible = sint (points q),
                ga_feedback = f, ga_question_type = qt_value (question_type q)\<rparr>"
    from Cons.prems have
      "grade_answers d m uas (rs0 @ [?r], t0 + sint (points q), if c then e0 + p else e0)
         = Inr (rs, t, e)"
      by (simp only: grade_answers_step [where m = m and d = d and a = a and qid = qid and q = q and ua = ua and c = c and p = p and f = f, OF qid q ua g])
    from Cons.IH [OF this] obtain new where
      n1: "rs = (rs0 @ [?r]) @ new"
      and n2: "t = t0 + sint (points q) + sum_list (map ga_points_possible new)"
      and n3: "e = (if c then e0 + p else e0) + sum_list (map ga_points_awarded new)"
      and n4: "map (PyUUID \<circ> ga_question_id) new =
                 map (\<lambda>a. dict_get a ''question_id'' PyNone) (filter (looked_up m) uas)"
      and n4': "map (PyStr \<circ> ga_user_answer) new =
                 map (\<lambda>a. dict_get a ''answer_text'' (PyStr [])) (filter (looked_up m) uas)"
      and n5: "\<forall>r\<in>set new. \<exists>q c f.
              m (ga_question_id r) = Some q \<and>
              grade_single_answer q (ga_user_answer r) (correct_answers_of d (ga_question_id r))
                = Inr (c, ga_points_awarded r, f) \<and>
              ga_is_correct r = c \<and> ga_feedback r = f \<and>
              ga_points_possible r = sint (points q)"
      by blast
    have e: "e = e0 + p + sum_list (map ga_points_awarded new)" using n3 p by (cases c) simp_all
    show ?thesis
    proof (intro exI [of _ "?r # new"] conjI)
      show "rs = rs0 @ ?r # new" using n1 by simp
      show "t = t0 + sum_list (map ga_points_possible (?r # new))" using n2 by simp
      show "e = e0 + sum_list (map ga_points_awarded (?r # new))" using e by simp
      show "map (PyUUID \<circ> ga_question_id) (?r # new) =
              map (\<lambda>a. dict_get a ''question_id'' PyNone) (filter (looked_up m) (a # uas))"
        using n4 qid True by simp
      show "map (PyStr \<circ> ga_user_answer) (?r # new) =
              map (\<lambda>a. dict_get a ''answer_text'' (PyStr [])) (filter (looked_up m) (a # uas))"
        using n4' ua True by simp
      show "\<forall>r\<in>set (?r # new). \<exists>q c f.
              m (ga_question_id r) = Some q \<and>
              grade_single_answer q (ga_user_answer r) (correct_answers_of d (ga_question_id r))
                = Inr (c, ga_points_awarded r, f) \<and>
              ga_is_correct r = c \<and> ga_feedback r = f \<and>
              ga_points_possible r = sint (points q)"
        using n5 q g by simp
    qed
  qed
qed




text \<open>The result of a grading, in terms of the loop.\<close>

lemma find_quiz:
  assumes "qz \<in> set (quizzes d)"
  shows "\<exists>quiz. find (\<lambda>q. q = qz) (quizzes d) = Some quiz"
  using assms by (cases "find (\<lambda>q. q = qz) (quizzes d)") (auto simp add: find_None_iff)

lemma grade_quiz_submission_Inr:
  assumes "grade_quiz_submission d uid qz uas = Inr res"
  shows "\<exists>t e. grade_answers d (question_map_of (questions_of d qz)) uas ([], 0, 0)
                  = Inr (graded_answers res, t, e) \<and>
               max_score res = t \<and> earned_points res = e \<and>
               overall_score res =
                 py_round2 (if 0 < t then float_mul (round_double (of_int e / of_int t)) 100 else 0)"
proof -
  from assms obtain quiz where f: "find (\<lambda>q. q = qz) (quizzes d) = Some quiz"
    by (cases "find (\<lambda>q. q = qz) (quizzes d)") (auto simp add: grade_quiz_submission_def)
  from assms f have q: "questions_of d qz \<noteq> []"
    by (auto simp add: grade_quiz_submission_def Let_def split: if_splits)
  from assms f q obtain rs t e where
    g: "grade_answers d (question_map_of (questions_of d qz)) uas ([], 0, 0) = Inr (rs, t, e)"
    by (cases "grade_answers d (question_map_of (questions_of d qz)) uas ([], 0, 0)")
       (auto simp add: grade_quiz_submission_def Let_def simp del: grade_answers.simps)
  have s: "(if 0 < t then percent e t else Inr 0) =
             Inr (if 0 < t then float_mul (round_double (of_int e / of_int t)) 100 else 0)"
    by (simp add: percent_def py_truediv_def float_100)
  obtain rows where b: "create_score_breakdown rs = Inr rows"
    using breakdown_rows_total by (auto simp add: create_score_breakdown_def)
  from assms show ?thesis
    by (auto simp add: grade_quiz_submission_def f q g s b Let_def simp del: grade_answers.simps)
qed

lemma grade_quiz_submission_from_loop:
  assumes "qz \<in> set (quizzes d)" and "\<exists>q\<in>set (quiz_questions d). quiz_id q = qz"
    and "grade_answers d (question_map_of (questions_of d qz)) uas ([], 0, 0) = Inr (rs, t, e)"
  shows "\<exists>res. grade_quiz_submission d uid qz uas = Inr res \<and> graded_answers res = rs \<and>
           max_score res = t \<and> earned_points res = e \<and>
           overall_score res =
             py_round2 (if 0 < t then float_mul (round_double (of_int e / of_int t)) 100 else 0)"
proof -
  from find_quiz [OF assms(1)] obtain quiz where
    f: "find (\<lambda>q. q = qz) (quizzes d) = Some quiz" by blast
  from assms(2) have q: "questions_of d qz \<noteq> []" by (simp add: questions_of_Nil_iff)
  have s: "(if 0 < t then percent e t else Inr 0) =
             Inr (if 0 < t then float_mul (round_double (of_int e / of_int t)) 100 else 0)"
    by (simp add: percent_def py_truediv_def float_100)
  obtain rows where b: "create_score_breakdown rs = Inr rows"
    using breakdown_rows_total by (auto simp add: create_score_breakdown_def)
  show ?thesis
    by (simp add: grade_quiz_submission_def f q assms(3) s b Let_def del: grade_answers.simps)
qed






section \<open>Results of a grading\<close>

lemma results_in_range:
  assumes key: "key_in_range d qz"
    and g: "grade_answers d (question_map_of (questions_of d qz)) uas ([], 0, 0) = Inr (rs, t, e)"
    and r: "r \<in> set rs"
  shows "0 \<le> ga_points_awarded r" and "ga_points_awarded r \<le> ga_points_possible r"
    and "\<exists>q\<in>set (quiz_questions d). quiz_id q = qz \<and> q_id q = ga_question_id r \<and>
           ga_points_possible r = sint (points q)"
proof -
  let ?m = "question_map_of (questions_of d qz)"
  from grade_answers_results [OF g] r obtain q c f where
    q: "?m (ga_question_id r) = Some q"
    and gs: "grade_single_answer q (ga_user_answer r) (correct_answers_of d (ga_question_id r))
               = Inr (c, ga_points_awarded r, f)"
    and pp: "ga_points_possible r = sint (points q)"
    by auto
  from question_map_of_Some [OF q] have qin: "q \<in> set (quiz_questions d)" "quiz_id q = qz"
    and qid: "q_id q = ga_question_id r"
    by (simp_all add: set_questions_of)
  from key qin have p1: "1 \<le> sint (points q)"
    and ent: "\<forall>a\<in>set (quiz_answers d). question_id a = q_id q \<longrightarrow>
             0 \<le> sint (points_awarded a) \<and> sint (points_awarded a) \<le> sint (points q)"
    by (auto simp add: key_in_range_def)
  from ent have "\<forall>ca\<in>set (correct_answers_of d (ga_question_id r)).
      0 \<le> sint (points_awarded ca) \<and> sint (points_awarded ca) \<le> sint (points q)"
    by (simp add: correct_answers_of_def qid)
  from grade_single_answer_bounds [OF this p1 gs]
  show "0 \<le> ga_points_awarded r" and "ga_points_awarded r \<le> ga_points_possible r"
    by (simp_all add: pp)
  from qin qid pp show "\<exists>q\<in>set (quiz_questions d). quiz_id q = qz \<and> q_id q = ga_question_id r \<and>
           ga_points_possible r = sint (points q)"
    by blast
qed

lemma paris_loop:
  "grade_answers geography_db (question_map_of (questions_of geography_db 4)) [paris_answer] ([], 0, 0) =
     Inr ([\<lparr>ga_question_id = 11,
              ga_question_text = ''What is the capital of France?'',
              ga_user_answer = ''paris '', ga_is_correct = True,
              ga_points_awarded = 10, ga_points_possible = 10,
              ga_feedback = ''Correct! Well done.'',
              ga_question_type = ''mcq''\<rparr>], 10, 10)"
  by code_simp

lemma score_100: "py_round2 (float_mul (round_double 1) 100) = 100"
  by code_simp

lemma geography_key: "key_in_range geography_db 4"
  by (simp add: key_in_range_def geography_db_def)

lemma paris_result:
  "\<exists>res. grade_quiz_submission geography_db 7 4 [paris_answer] = Inr res \<and>
     graded_answers res =
       [\<lparr>ga_question_id = 11,
         ga_question_text = ''What is the capital of France?'',
         ga_user_answer = ''paris '', ga_is_correct = True,
         ga_points_awarded = 10, ga_points_possible = 10,
         ga_feedback = ''Correct! Well done.'',
         ga_question_type = ''mcq''\<rparr>] \<and>
     max_score res = 10 \<and> earned_points res = 10 \<and> overall_score res = 100"
proof -
  have "4 \<in> set (quizzes geography_db)" and "\<exists>q\<in>set (quiz_questions geography_db). quiz_id q = 4"
    by (simp_all add: geography_db_def)
  from grade_quiz_submission_from_loop [OF this paris_loop, of 7] show ?thesis
    by (auto simp add: score_100)
qed

section \<open>The overall score\<close>

lemma sum_list_bounds:
  fixes f g :: "'a \<Rightarrow> int"
  assumes "\<forall>r\<in>set rs. 0 \<le> f r \<and> f r \<le> g r"
  shows "0 \<le> sum_list (map f rs)" and "sum_list (map f rs) \<le> sum_list (map g rs)"
  using assms by (induction rs) (auto simp add: add_mono)

lemma score_bounds:
  assumes "0 \<le> e" and "e \<le> t"
  shows "0 \<le> py_round2 (if 0 < t then float_mul (round_double (of_int e / of_int t)) 100 else 0)"
    and "py_round2 (if 0 < t then float_mul (round_double (of_int e / of_int t)) 100 else 0) \<le> 100"
proof -
  let ?s = "if 0 < t then float_mul (round_double (of_int e / of_int t)) 100 else 0"
  have "0 \<le> ?s \<and> ?s \<le> 100"
  proof (cases "0 < t")
    case True
    from percent_bounds [OF assms True] show ?thesis
      using True by (auto simp add: percent_def py_truediv_def float_100)
  next
    case False
    then show ?thesis by simp
  qed
  then show "0 \<le> py_round2 ?s" and "py_round2 ?s \<le> 100"
    by (simp_all only: py_round2_bounds)
qed

lemma negative_loop:
  "grade_answers negative_key_db (question_map_of (questions_of negative_key_db 4)) [paris_answer]
     ([], 0, 0) =
     Inr ([\<lparr>ga_question_id = 11,
              ga_question_text = ''What is the capital of France?'',
              ga_user_answer = ''paris '', ga_is_correct = True,
              ga_points_awarded = - 5, ga_points_possible = 10,
              ga_feedback = ''Correct! Well done.'',
              ga_question_type = ''mcq''\<rparr>], 10, - 5)"
  by code_simp

lemma score_minus_50: "py_round2 (float_mul (round_double (- (1 / 2))) 100) = - 50"
  by code_simp

lemma zero_point_loop:
  "grade_answers zero_point_db (question_map_of (questions_of zero_point_db 4)) zero_point_answers
     ([], 0, 0) =
     Inr ([\<lparr>ga_question_id = 11,
              ga_question_text = ''Describe the water cycle.'',
              ga_user_answer = ''rain'', ga_is_correct = True,
              ga_points_awarded = 1, ga_points_possible = 0,
              ga_feedback = ''Response is too short. Please provide more detail and explanation.'',
              ga_question_type = ''essay''\<rparr>,
           \<lparr>ga_question_id = 12,
              ga_question_text = ''What is the capital of France?'',
              ga_user_answer = ''Paris'', ga_is_correct = True,
              ga_points_awarded = 1, ga_points_possible = 1,
              ga_feedback = ''Correct! Well done.'',
              ga_question_type = ''mcq''\<rparr>], 1, 2)"
  by code_simp

lemma score_200: "py_round2 (float_mul (round_double 2) 100) = 200"
  by code_simp

lemma zero_point_score:
  "map_sum id overall_score (grade_quiz_submission zero_point_db 7 4 zero_point_answers) = Inr 200"
proof -
  have "4 \<in> set (quizzes zero_point_db)" and "\<exists>q\<in>set (quiz_questions zero_point_db). quiz_id q = 4"
    by (simp_all add: zero_point_db_def)
  from grade_quiz_submission_from_loop [OF this zero_point_loop, of 7] show ?thesis
    by (auto simp add: score_200)
qed

section \<open>Answers that name no question of the quiz\<close>












section \<open>The key terms of an essay question\<close>

lemma essay_count_terms:
  "essay_count ua cas (nf, nt) = (nf + matched_terms ua cas, nt + total_terms cas)"
  by (induction cas arbitrary: nf nt) (simp_all add: matched_terms_def total_terms_def)

section \<open>The loops as searches for the first matching entry\<close>

lemma grade_mcq_exact_find:
  "grade_mcq_exact u cas =
     map_option (\<lambda>ca. (True, sint (points_awarded ca), ''Correct! Well done.''))
       (find (\<lambda>ca. u = strip (lower (answer_text ca))) cas)"
  by (induction cas) simp_all

lemma grade_mcq_contained_find:
  "grade_mcq_contained u cas =
     map_option (\<lambda>ca. (True, sint (points_awarded ca),
                        ''Partially correct. Consider reviewing the material for a complete answer.''))
       (find (\<lambda>ca. sublist (strip (lower (answer_text ca))) u) cas)"
  by (induction cas) (simp_all add: py_in_def)

lemma grade_true_false_loop_find:
  "grade_true_false_loop u cas =
     map_option (\<lambda>ca. (True, sint (points_awarded ca), ''Correct! Well done.''))
       (find (\<lambda>ca.
          (strip (lower (answer_text ca)) \<in> {''true'', ''yes'', ''correct''} \<and>
           u \<in> {''true'', ''yes'', ''correct'', ''t'', ''y''}) \<or>
          (strip (lower (answer_text ca)) \<in> {''false'', ''no'', ''incorrect''} \<and>
           u \<in> {''false'', ''no'', ''incorrect'', ''f'', ''n''})) cas)"
  by (induction cas) (auto simp add: Let_def)

section \<open>Entries before the one that matches\<close>

lemma grade_fill_blank_loop_append:
  "grade_fill_blank_loop u pre = Inr None \<Longrightarrow>
     grade_fill_blank_loop u (pre @ rest) = grade_fill_blank_loop u rest"
  by (induction pre) (auto simp add: Let_def split: if_splits sum.splits)

section \<open>The overlap tier, and blank answers\<close>

text \<open>
  The token-overlap tier of the fill-blank grader fires when at least four fifths of
  the tokens of the entry are tokens of the answer, the boundary included; its credit is
  \<open>int(points_awarded * 0.7)\<close>.
\<close>

lemma overlap_ratio_inclusive:
  assumes "0 < n" and "4 * n \<le> 5 * k"
  shows "\<exists>r. py_truediv (int k) (int n) = Inr r \<and> lit_0_8 \<le> r"
proof -
  have "(4 / 5 :: rat) \<le> of_nat k / of_nat n"
  proof -
    have "(of_nat (4 * n) :: rat) \<le> of_nat (5 * k)" using assms(2) by (simp only: of_nat_le_iff)
    then show ?thesis using assms(1) by (simp add: field_simps)
  qed
  then have "round_double (4 / 5) \<le> round_double (of_nat k / of_nat n)"
    by (intro round_double_mono) simp_all
  moreover have "lit_0_8 = round_double (4 / 5)" by (simp add: lit_0_8_def)
  ultimately show ?thesis using assms(1) by (simp add: py_truediv_def)
qed

lemma fill_blank_overlap_tier:
  assumes "strip ua \<noteq> []"
    and "grade_fill_blank_loop (strip (lower ua)) before = Inr None"
    and "strip (lower ua) \<noteq> strip (lower (answer_text ca))"
    and "\<not> py_in (strip (lower (answer_text ca))) (strip (lower ua))"
    and "\<not> py_in (strip (lower ua)) (strip (lower (answer_text ca)))"
    and "4 * card (set (split (strip (lower (answer_text ca))))) \<le>
           5 * card (set (split (strip (lower (answer_text ca)))) \<inter>
                     set (split (strip (lower ua))))"
  shows "grade_fill_blank ua (before @ ca # rest) =
           Inr (True, partial_credit (points_awarded ca) lit_0_7,
                ''Partially correct. Consider reviewing the exact terminology.'')"
proof -
  let ?c = "strip (lower (answer_text ca))" and ?u = "strip (lower ua)"
  from assms(4) have "?c \<noteq> []" by (auto simp add: py_in_def)
  then have "split ?c \<noteq> []" by (rule split_strip_nonempty)
  then have "0 < card (set (split ?c))" by (simp add: card_gt_0_iff)
  from overlap_ratio_inclusive [OF this assms(6)] obtain r where
    r: "py_truediv (int (card (set (split ?c) \<inter> set (split ?u)))) (int (card (set (split ?c))))
          = Inr r" and r8: "lit_0_8 \<le> r"
    by blast
  have "grade_fill_blank_loop ?u (before @ ca # rest) = grade_fill_blank_loop ?u (ca # rest)"
    using assms(2) by (rule grade_fill_blank_loop_append)
  also have "\<dots> = Inr (Some (True, partial_credit (points_awarded ca) lit_0_7,
                ''Partially correct. Consider reviewing the exact terminology.''))"
    using assms(3,4,5) r r8 by (simp add: Let_def)
  finally show ?thesis using assms(1) by (simp add: grade_fill_blank_def)
qed

text \<open>What each grader answers to a blank answer.\<close>

lemma blank_answer_graders:
  assumes "strip ua = []"
  shows "grade_fill_blank ua cas = Inr (False, 0, ''No answer provided.'')"
    and "grade_essay ua cas = Inr (False, 0, ''No answer provided.'')"
    and "grade_text_comparison ua cas =
           Inr (False, 0, ''No answer provided or no correct answers defined.'')"
    and "grade_true_false ua cas =
           Inr (False, 0, incorrect_feedback ''Incorrect. The correct answer was: '' cas)"
    and "\<forall>ca\<in>set cas. strip (lower (answer_text ca)) \<noteq> [] \<Longrightarrow>
           grade_mcq ua cas =
             Inr (False, 0, incorrect_feedback ''Incorrect. The correct answer was: '' cas)"
proof -
  from assms have u: "strip (lower ua) = []" by (simp add: strip_lower_Nil_iff)
  show "grade_fill_blank ua cas = Inr (False, 0, ''No answer provided.'')"
    using assms by (simp add: grade_fill_blank_def)
  show "grade_essay ua cas = Inr (False, 0, ''No answer provided.'')"
    using assms by (simp add: grade_essay_def)
  show "grade_text_comparison ua cas =
           Inr (False, 0, ''No answer provided or no correct answers defined.'')"
    using assms by (simp add: grade_text_comparison_def)
  have "find (\<lambda>ca. False) cas = None" by (simp add: find_None_iff)
  then show "grade_true_false ua cas =
           Inr (False, 0, incorrect_feedback ''Incorrect. The correct answer was: '' cas)"
    by (simp add: grade_true_false_def grade_true_false_loop_find u)
  show "grade_mcq ua cas =
             Inr (False, 0, incorrect_feedback ''Incorrect. The correct answer was: '' cas)"
    if "\<forall>ca\<in>set cas. strip (lower (answer_text ca)) \<noteq> []"
  proof -
    from that have "find (\<lambda>ca. [] = strip (lower (answer_text ca))) cas = None"
      and "find (\<lambda>ca. sublist (strip (lower (answer_text ca))) []) cas = None"
      by (auto simp add: find_None_iff)
    then show ?thesis
      by (simp add: grade_mcq_def grade_mcq_exact_find grade_mcq_contained_find u)
  qed
qed

section \<open>The claims\<close>

text \<open>
  C1.  When the answer key of the quiz is in range (the points of every entry lie
  between 0 and the points of its question, and every question is worth at least one
  point), every result produced by grading has \<open>0 \<le> points_awarded \<le> points_possible\<close>,
  where \<open>points_possible\<close> is the points of the result's question.
\<close>

theorem points_awarded_in_range:
  assumes "key_in_range d qz" and "grade_quiz_submission d uid qz uas = Inr res"
  shows "\<forall>r\<in>set (graded_answers res).
           0 \<le> ga_points_awarded r \<and> ga_points_awarded r \<le> ga_points_possible r \<and>
           (\<exists>q\<in>set (quiz_questions d). quiz_id q = qz \<and> q_id q = ga_question_id r \<and>
              ga_points_possible r = sint (points q))"
proof
  fix r assume r: "r \<in> set (graded_answers res)"
  from grade_quiz_submission_Inr [OF assms(2)] obtain t e where
    "grade_answers d (question_map_of (questions_of d qz)) uas ([], 0, 0)
       = Inr (graded_answers res, t, e)"
    by blast
  from results_in_range [OF assms(1) this r]
  show "0 \<le> ga_points_awarded r \<and> ga_points_awarded r \<le> ga_points_possible r \<and>
           (\<exists>q\<in>set (quiz_questions d). quiz_id q = qz \<and> q_id q = ga_question_id r \<and>
              ga_points_possible r = sint (points q))"
    by simp
qed

theorem points_awarded_in_range_witness:
  "key_in_range geography_db 4 \<and>
   (\<exists>res. grade_quiz_submission geography_db 7 4 [paris_answer] = Inr res \<and>
      graded_answers res \<noteq> [] \<and>
      (\<forall>r\<in>set (graded_answers res).
         0 \<le> ga_points_awarded r \<and> ga_points_awarded r \<le> ga_points_possible r \<and>
         (\<exists>q\<in>set (quiz_questions geography_db). quiz_id q = 4 \<and> q_id q = ga_question_id r \<and>
            ga_points_possible r = sint (points q))))"
proof -
  from paris_result obtain res where
    res: "grade_quiz_submission geography_db 7 4 [paris_answer] = Inr res"
    and ne: "graded_answers res \<noteq> []"
    by auto
  from points_awarded_in_range [OF geography_key res] geography_key res ne
  show ?thesis by blast
qed

text \<open>
  C2, amended.  The overall score is \<open>round(earned / possible * 100, 2)\<close>, evaluated in
  floating point, where \<open>earned\<close> and \<open>possible\<close> are the sums of \<open>points_awarded\<close> and of
  \<open>points_possible\<close> over the produced results, and it is 0 when \<open>possible\<close> is not
  positive.  When the answer key is in range (entry points between 0 and the points of
  the question, every question worth at least one point) the overall score lies between
  0 and 100.  Without the lower bounds it does not: an entry of -5 points gives -50, and
  an essay question worth 0 points gives 200.
\<close>

theorem overall_score_formula:
  assumes "grade_quiz_submission d uid qz uas = Inr res"
  shows "overall_score res =
           (let earned = sum_list (map ga_points_awarded (graded_answers res));
                possible = sum_list (map ga_points_possible (graded_answers res))
            in if 0 < possible
               then py_round2 (float_mul (round_double (of_int earned / of_int possible)) 100)
               else 0) \<and>
         (key_in_range d qz \<longrightarrow> 0 \<le> overall_score res \<and> overall_score res \<le> 100)"
proof -
  from grade_quiz_submission_Inr [OF assms] obtain t e where
    g: "grade_answers d (question_map_of (questions_of d qz)) uas ([], 0, 0)
          = Inr (graded_answers res, t, e)"
    and s: "overall_score res =
              py_round2 (if 0 < t then float_mul (round_double (of_int e / of_int t)) 100 else 0)"
    by blast
  from grade_answers_results [OF g]
  have t: "t = sum_list (map ga_points_possible (graded_answers res))"
    and e: "e = sum_list (map ga_points_awarded (graded_answers res))"
    by auto
  have first: "overall_score res =
           (let earned = sum_list (map ga_points_awarded (graded_answers res));
                possible = sum_list (map ga_points_possible (graded_answers res))
            in if 0 < possible
               then py_round2 (float_mul (round_double (of_int earned / of_int possible)) 100)
               else 0)"
    using s by (simp add: t e Let_def py_round2_0)
  have second: "0 \<le> overall_score res \<and> overall_score res \<le> 100" if key: "key_in_range d qz"
  proof -
    have "\<forall>r\<in>set (graded_answers res).
            0 \<le> ga_points_awarded r \<and> ga_points_awarded r \<le> ga_points_possible r"
      using results_in_range(1,2) [OF key g] by blast
    from sum_list_bounds [OF this] have "0 \<le> e" and "e \<le> t" by (simp_all add: t e)
    from score_bounds [OF this] show ?thesis by (simp only: s)
  qed
  from first second show ?thesis by blast
qed

theorem overall_score_formula_witness:
  "\<exists>res. grade_quiz_submission geography_db 7 4 [paris_answer] = Inr res \<and>
     key_in_range geography_db 4 \<and>
     overall_score res = 100 \<and> 0 \<le> overall_score res \<and> overall_score res \<le> 100"
proof -
  from paris_result obtain res where
    res: "grade_quiz_submission geography_db 7 4 [paris_answer] = Inr res"
    and s: "overall_score res = 100"
    by auto
  from overall_score_formula [OF res] geography_key res s show ?thesis by blast
qed

theorem overall_score_out_of_range_counterexample:
  "sint (- 5 :: 32 word) \<le> sint (10 :: 32 word) \<and>
   map_sum id overall_score (grade_quiz_submission negative_key_db 7 4 [paris_answer]) = Inr (- 50) \<and>
   sint (1 :: 32 word) \<le> sint (1 :: 32 word) \<and>
   map_sum id overall_score (grade_quiz_submission zero_point_db 7 4 zero_point_answers) = Inr 200"
proof -
  have "4 \<in> set (quizzes negative_key_db)"
    and "\<exists>q\<in>set (quiz_questions negative_key_db). quiz_id q = 4"
    by (simp_all add: negative_key_db_def)
  from grade_quiz_submission_from_loop [OF this negative_loop, of 7] zero_point_score
  show ?thesis by (auto simp add: score_minus_50)
qed







text \<open>
  C5.  The claim asks of every grader that an empty or whitespace-only answer be graded
  incorrect, with 0 points and a ``no answer'' feedback.  The fill-blank, essay and
  text-comparison graders do so; the multiple-choice and true/false graders have no
  such test and answer with the ``Incorrect. The correct answer was'' feedback, which
  names the correct entry.
\<close>

theorem empty_answer_mcq_true_false:
  "grade_mcq '''' [paris_entry] = Inr (False, 0, ''Incorrect. The correct answer was: Paris'') \<and>
   grade_true_false ''  '' [true_entry] =
     Inr (False, 0, ''Incorrect. The correct answer was: True'') \<and>
   grade_fill_blank ''  '' [paris_entry] = Inr (False, 0, ''No answer provided.'') \<and>
   grade_essay ''  '' [paris_entry] = Inr (False, 0, ''No answer provided.'') \<and>
   grade_text_comparison ''  '' [paris_entry] =
     Inr (False, 0, ''No answer provided or no correct answers defined.'')"
  by code_simp

text \<open>
  C6, amended.  The essay grader gives 0 points and ``No answer provided.'' to a blank
  answer (empty or whitespace only), and exactly 1 point to every other answer shorter
  than 50 characters.  An answer of 50 characters or more that is not blank is marked
  correct, and its points follow the share of key terms found in it.  The key terms are
  the words of more than 3 characters of the texts of the correct entries, counted
  with repetitions; with \<open>total\<close> of them, of which \<open>matched\<close> occur in the answer
  (case-insensitively), the answer receives \<open>int(p * min(matched / total, 1.0))\<close>
  points, evaluated in floating point, where \<open>p\<close> is the points of the first correct
  entry, and the feedback of the ratio \<open>matched / total\<close>; it receives 0 points and
  ``Essay response received.'' when there is no key term.  So it receives 0 points
  when none of the key terms occurs in it, whatever the points of the first correct
  entry.
\<close>

theorem essay_grading:
  "(strip ua = [] \<longrightarrow> grade_essay ua cas = Inr (False, 0, ''No answer provided.'')) \<and>
   (strip ua \<noteq> [] \<and> length ua < 50 \<longrightarrow>
      grade_essay ua cas =
        Inr (True, 1, ''Response is too short. Please provide more detail and explanation.'')) \<and>
   (strip ua \<noteq> [] \<and> 50 \<le> length ua \<longrightarrow>
      grade_essay ua cas =
        (if total_terms cas = 0 then Inr (True, 0, ''Essay response received.'')
         else Inr (True,
                   (case cas of
                      [] \<Rightarrow> 0
                    | c # _ \<Rightarrow>
                        py_int (float_mul (float_of_int (sint (points_awarded c)))
                          (min (round_double
                                  (of_nat (matched_terms ua cas) / of_nat (total_terms cas)))
                               1))),
                   essay_feedback
                     (round_double (of_nat (matched_terms ua cas) / of_nat (total_terms cas)))))) \<and>
   (strip ua \<noteq> [] \<and> 50 \<le> length ua \<and> matched_terms ua cas = 0 \<longrightarrow>
      (\<exists>f. grade_essay ua cas = Inr (True, 0, f)))"
proof -
  have ec: "essay_count ua cas (0, 0) = (matched_terms ua cas, total_terms cas)"
    by (simp only: essay_count_terms add_0)
  have long: "grade_essay ua cas =
        (if total_terms cas = 0 then Inr (True, 0, ''Essay response received.'')
         else Inr (True,
                   (case cas of
                      [] \<Rightarrow> 0
                    | c # _ \<Rightarrow>
                        py_int (float_mul (float_of_int (sint (points_awarded c)))
                          (min (round_double
                                  (of_nat (matched_terms ua cas) / of_nat (total_terms cas)))
                               1))),
                   essay_feedback
                     (round_double (of_nat (matched_terms ua cas) / of_nat (total_terms cas)))))"
    if a: "strip ua \<noteq> [] \<and> 50 \<le> length ua"
    using a by (simp add: grade_essay_def ec py_truediv_def del: essay_count.simps)
  have z: "py_int (float_mul x (min (round_double 0) 1)) = 0" for x
    by (simp add: round_double_0 float_mul_def py_int_def)
  have zero: "\<exists>f. grade_essay ua cas = Inr (True, 0, f)"
    if a: "strip ua \<noteq> [] \<and> 50 \<le> length ua \<and> matched_terms ua cas = 0"
  proof -
    from a have m: "matched_terms ua cas = 0" and "strip ua \<noteq> [] \<and> 50 \<le> length ua"
      by simp_all
    note long [OF this(2), unfolded m]
    then show ?thesis by (cases cas) (simp_all add: z)
  qed
  have blank: "grade_essay ua cas = Inr (False, 0, ''No answer provided.'')" if "strip ua = []"
    using that by (simp add: grade_essay_def)
  have short: "grade_essay ua cas =
        Inr (True, 1, ''Response is too short. Please provide more detail and explanation.'')"
    if "strip ua \<noteq> [] \<and> length ua < 50"
    using that by (simp add: grade_essay_def)
  from blank short long zero show ?thesis by blast
qed

theorem essay_grading_witness:
  "grade_essay ''   '' [pigment_entry] = Inr (False, 0, ''No answer provided.'') \<and>
   grade_essay ''Plants use light.'' [pigment_entry] =
     Inr (True, 1, ''Response is too short. Please provide more detail and explanation.'') \<and>
   matched_terms leaf_answer [pigment_entry] = 1 \<and> total_terms [pigment_entry] = 2 \<and>
   grade_essay leaf_answer [pigment_entry] =
     Inr (True, 5, ''Good response but could include more key concepts.'') \<and>
   matched_terms long_answer [pigment_entry] = 0 \<and>
   (\<exists>f. grade_essay long_answer [pigment_entry] = Inr (True, 0, f))"
proof -
  have s: "strip ''   '' = []" "strip ''Plants use light.'' \<noteq> []" "strip long_answer \<noteq> []"
    "strip leaf_answer \<noteq> []"
    by code_simp+
  have l: "length ''Plants use light.'' < 50" "50 \<le> length long_answer"
    "50 \<le> length leaf_answer"
    by (simp_all add: long_answer_def leaf_answer_def)
  have c: "matched_terms long_answer [pigment_entry] = 0"
    "matched_terms leaf_answer [pigment_entry] = 1" "total_terms [pigment_entry] = 2"
    by code_simp+
  have v: "py_int (float_mul (float_of_int (sint (points_awarded pigment_entry)))
             (min (round_double (of_nat 1 / of_nat 2)) 1)) = 5"
    "essay_feedback (round_double (of_nat 1 / of_nat 2)) =
       ''Good response but could include more key concepts.''"
    by code_simp+
  note e1 = essay_grading [of "''   ''" "[pigment_entry]", THEN conjunct1, rule_format, OF s(1)]
  note e2 = essay_grading [of "''Plants use light.''" "[pigment_entry]", THEN conjunct2,
                THEN conjunct1, rule_format, OF conjI [OF s(2) l(1)]]
  note e3 = essay_grading [of leaf_answer "[pigment_entry]", THEN conjunct2, THEN conjunct2,
                THEN conjunct1, rule_format, OF conjI [OF s(4) l(3)]]
  note e4 = essay_grading [of long_answer "[pigment_entry]", THEN conjunct2, THEN conjunct2,
                THEN conjunct2, rule_format, OF conjI [OF s(3) conjI [OF l(2) c(1)]]]
  from e3 have "grade_essay leaf_answer [pigment_entry] =
     Inr (True, 5, ''Good response but could include more key concepts.'')"
    unfolding c by (simp only: v list.case) simp
  with e1 e2 e4 c show ?thesis by blast
qed

theorem essay_zero_points_counterexample:
  "grade_essay long_answer [pigment_entry] =
     Inr (True, 0, ''Response needs more key concepts and details.'') \<and>
   0 < sint (points_awarded pigment_entry) \<and> 1 \<le> length long_answer \<and>
   grade_essay '' '' [pigment_entry] = Inr (False, 0, ''No answer provided.'') \<and>
   1 \<le> length '' ''"
  by code_simp

text \<open>
  C7.  The multiple-choice grader: when the trimmed, lower-cased answer equals the
  trimmed, lower-cased text of a correct entry, the answer is correct with the points of
  the first such entry; otherwise, when the normalized text of a correct entry occurs
  in the normalized answer, it is correct with the points of the first such entry and
  the ``Partially correct'' feedback; otherwise it is incorrect with 0 points and a
  feedback that names the first correct entry.  For the 10-point question whose correct
  entry is ``Paris'', the answer ``paris '' is correct with 10 points and the overall
  score is 100.
\<close>

theorem mcq_grading:
  "grade_mcq ua cas =
     (case find (\<lambda>ca. strip (lower ua) = strip (lower (answer_text ca))) cas of
        Some ca \<Rightarrow> Inr (True, sint (points_awarded ca), ''Correct! Well done.'')
      | None \<Rightarrow>
          (case find (\<lambda>ca. sublist (strip (lower (answer_text ca))) (strip (lower ua))) cas of
             Some ca \<Rightarrow>
               Inr (True, sint (points_awarded ca),
                    ''Partially correct. Consider reviewing the material for a complete answer.'')
           | None \<Rightarrow>
               Inr (False, 0,
                    case cas of
                      [] \<Rightarrow> ''Incorrect answer.''
                    | c # _ \<Rightarrow> ''Incorrect. The correct answer was: '' @ answer_text c))) \<and>
   (\<exists>res. grade_quiz_submission geography_db 7 4 [paris_answer] = Inr res \<and>
      map (\<lambda>r. (ga_is_correct r, ga_points_awarded r)) (graded_answers res) = [(True, 10)] \<and>
      overall_score res = 100)"
proof -
  have "\<exists>res. grade_quiz_submission geography_db 7 4 [paris_answer] = Inr res \<and>
      map (\<lambda>r. (ga_is_correct r, ga_points_awarded r)) (graded_answers res) = [(True, 10)] \<and>
      overall_score res = 100"
    using paris_result by auto
  then show ?thesis
    by (simp add: grade_mcq_def grade_mcq_exact_find grade_mcq_contained_find
          incorrect_feedback_def split: option.split)
qed

theorem mcq_grading_witness:
  "grade_mcq ''paris '' [paris_entry] = Inr (True, 10, ''Correct! Well done.'') \<and>
   grade_mcq ''It is Paris'' [paris_entry] =
     Inr (True, 10, ''Partially correct. Consider reviewing the material for a complete answer.'') \<and>
   grade_mcq ''Rome'' [paris_entry] = Inr (False, 0, ''Incorrect. The correct answer was: Paris'')"
proof -
  have n: "strip (lower ''paris '') = ''paris''" "strip (lower ''Paris'') = ''paris''"
    "strip (lower ''It is Paris'') = ''it is paris''" "strip (lower ''Rome'') = ''rome''"
    by code_simp+
  have s: "sublist ''paris'' ''it is paris''" "\<not> sublist ''paris'' ''rome''"
    by code_simp+
  show ?thesis
    using mcq_grading [of "''paris ''" "[paris_entry]"]
      mcq_grading [of "''It is Paris''" "[paris_entry]"]
      mcq_grading [of "''Rome''" "[paris_entry]"]
    by (simp add: paris_entry_def n s)
qed

text \<open>
  C8.  The claim gives the token-overlap tier the integer floor of 0.7 times the points
  of the entry.  The grader computes \<open>int(points_awarded * 0.7)\<close> in floating point: for
  an entry of 90 points, four of whose five tokens are in the answer (ratio exactly
  0.8), the product is just below 63 and the grader awards 62 points, not 63.
\<close>

theorem fill_blank_overlap_credit_90:
  "grade_fill_blank ''light dependent reactions produce sugar'' [reactions_entry] =
     Inr (True, 62, ''Partially correct. Consider reviewing the exact terminology.'') \<and>
   \<lfloor>7 / 10 * of_int (sint (points_awarded reactions_entry)) :: rat\<rfloor> = 63"
  by code_simp

text \<open>
  C9, amended.  The true/false grader normalizes the submitted answer by membership in
  \<open>{true, yes, correct, t, y}\<close> and \<open>{false, no, incorrect, f, n}\<close>, but the text of a
  correct entry by membership in \<open>{true, yes, correct}\<close> and \<open>{false, no, incorrect}\<close>
  only.  The answer is correct, with the full points of the first entry that agrees,
  exactly when some correct entry agrees; otherwise it gets 0 points: there is no
  partial credit.  An entry whose text is ``t'' matches no answer, not even ``true''.
\<close>

theorem true_false_grading:
  "grade_true_false ua cas =
     (case find (\<lambda>ca.
          (strip (lower (answer_text ca)) \<in> {''true'', ''yes'', ''correct''} \<and>
           strip (lower ua) \<in> {''true'', ''yes'', ''correct'', ''t'', ''y''}) \<or>
          (strip (lower (answer_text ca)) \<in> {''false'', ''no'', ''incorrect''} \<and>
           strip (lower ua) \<in> {''false'', ''no'', ''incorrect'', ''f'', ''n''})) cas of
        Some ca \<Rightarrow> Inr (True, sint (points_awarded ca), ''Correct! Well done.'')
      | None \<Rightarrow>
          Inr (False, 0,
               case cas of
                 [] \<Rightarrow> ''Incorrect answer.''
               | c # _ \<Rightarrow> ''Incorrect. The correct answer was: '' @ answer_text c))"
  by (simp add: grade_true_false_def grade_true_false_loop_find incorrect_feedback_def
        split: option.split)

theorem true_false_grading_witness:
  "grade_true_false ''Y'' [true_entry] = Inr (True, 5, ''Correct! Well done.'') \<and>
   grade_true_false ''no'' [true_entry] = Inr (False, 0, ''Incorrect. The correct answer was: True'')"
proof -
  have n: "strip (lower ''Y'') = ''y''" "strip (lower ''True'') = ''true''"
    "strip (lower ''no'') = ''no''"
    by code_simp+
  show ?thesis
    using true_false_grading [of "''Y''" "[true_entry]"]
      true_false_grading [of "''no''" "[true_entry]"]
    by (simp add: true_entry_def n)
qed

theorem true_false_key_counterexample:
  "grade_true_false ''true'' [t_entry] = Inr (False, 0, ''Incorrect. The correct answer was: t'')"
  by code_simp

text \<open>
  C10, amended.  In the fill-blank grader, for an answer that is not blank: when the
  loop reaches a correct entry whose text strips to the empty string (no entry before it
  matched in any tier), the containment tier fires for that entry and the grader returns
  correct, with 0.8 times the points of the entry truncated towards zero (the floor,
  when the points are not negative) and the ``Close!'' feedback.  The token-overlap
  division is reached only when the normalized text of the entry is not contained in the
  answer, hence not empty; its set of tokens then has at least one element, and the
  grader never fails with a division by zero.
\<close>

theorem fill_blank_blank_entry:
  "(strip ua \<noteq> [] \<and> strip (lower (answer_text ca)) = [] \<and>
    grade_fill_blank_loop (strip (lower ua)) before = Inr None \<longrightarrow>
      grade_fill_blank ua (before @ ca # rest) =
        Inr (True, py_int (4 / 5 * of_int (sint (points_awarded ca))),
             ''Close! The answer was slightly different than expected.'') \<and>
      (0 \<le> sint (points_awarded ca) \<longrightarrow>
         py_int (4 / 5 * of_int (sint (points_awarded ca))) =
           \<lfloor>4 / 5 * of_int (sint (points_awarded ca)) :: rat\<rfloor>)) \<and>
   (\<not> py_in (strip (lower (answer_text ca))) u \<longrightarrow>
      1 \<le> card (set (split (strip (lower (answer_text ca)))))) \<and>
   (\<exists>r. grade_fill_blank ua cas = Inr r)"
proof (intro conjI impI)
  assume a: "strip ua \<noteq> [] \<and> strip (lower (answer_text ca)) = [] \<and>
    grade_fill_blank_loop (strip (lower ua)) before = Inr None"
  then have u: "strip (lower ua) \<noteq> []" by (simp add: strip_lower_Nil_iff)
  from a have "grade_fill_blank_loop (strip (lower ua)) (before @ ca # rest) =
                 grade_fill_blank_loop (strip (lower ua)) (ca # rest)"
    by (simp only: grade_fill_blank_loop_append)
  also have "\<dots> = Inr (Some (True, partial_credit (points_awarded ca) lit_0_8,
                         ''Close! The answer was slightly different than expected.''))"
    using a u by (simp add: Let_def py_in_def)
  finally have "grade_fill_blank ua (before @ ca # rest) =
        Inr (True, partial_credit (points_awarded ca) lit_0_8,
             ''Close! The answer was slightly different than expected.'')"
    using a by (simp add: grade_fill_blank_def)
  then show "grade_fill_blank ua (before @ ca # rest) =
        Inr (True, py_int (4 / 5 * of_int (sint (points_awarded ca))),
             ''Close! The answer was slightly different than expected.'')"
    by (simp only: partial_credit_0_8)
next
  assume "0 \<le> sint (points_awarded ca)"
  then have "(0::rat) \<le> of_int (sint (points_awarded ca))" by (simp only: of_int_0_le_iff)
  then have "(0::rat) \<le> 4 / 5 * of_int (sint (points_awarded ca))"
    by (rule mult_nonneg_nonneg [rotated]) simp
  then show "py_int (4 / 5 * of_int (sint (points_awarded ca))) =
           \<lfloor>4 / 5 * of_int (sint (points_awarded ca)) :: rat\<rfloor>"
    by (simp only: py_int_def if_True)
next
  assume "\<not> py_in (strip (lower (answer_text ca))) u"
  then have "strip (lower (answer_text ca)) \<noteq> []" by (auto simp add: py_in_def)
  then have "split (strip (lower (answer_text ca))) \<noteq> []" by (rule split_strip_nonempty)
  then have "0 < card (set (split (strip (lower (answer_text ca)))))"
    by (simp add: card_gt_0_iff)
  then show "1 \<le> card (set (split (strip (lower (answer_text ca)))))" by linarith
next
  show "\<exists>r. grade_fill_blank ua cas = Inr r" by (rule grade_fill_blank_total)
qed

theorem fill_blank_blank_entry_witness:
  "grade_fill_blank ''x'' [paris_entry, blank_entry] =
     Inr (True, 8, ''Close! The answer was slightly different than expected.'') \<and>
   1 \<le> card (set (split (strip (lower (answer_text paris_entry))))) \<and>
   (\<exists>r. grade_fill_blank ''x'' [] = Inr r)"
proof -
  have h: "strip ''x'' \<noteq> []" "strip (lower (answer_text blank_entry)) = []"
    "grade_fill_blank_loop (strip (lower ''x'')) [paris_entry] = Inr None"
    "\<not> py_in (strip (lower (answer_text paris_entry))) ''x''"
    "0 \<le> sint (points_awarded blank_entry)"
    by code_simp+
  have v: "\<lfloor>4 / 5 * of_int (sint (points_awarded blank_entry)) :: rat\<rfloor> = 8"
    by code_simp
  from fill_blank_blank_entry
         [where ua = "''x''" and ca = blank_entry and before = "[paris_entry]" and rest = "[]"
            and u = "''x''" and cas = "[]"]
       fill_blank_blank_entry
         [where ua = "''x''" and ca = paris_entry and before = "[]" and rest = "[]"
            and u = "''x''" and cas = "[]"]
       h v
  show ?thesis by simp
qed

theorem fill_blank_blank_entry_counterexample:
  "grade_fill_blank ''x'' [x_entry, blank_entry] = Inr (True, 5, ''Correct! Well done.'') \<and>
   grade_fill_blank ''x'' [blank_penalty_entry] =
     Inr (True, - 2, ''Close! The answer was slightly different than expected.'') \<and>
   \<lfloor>8 / 10 * of_int (sint (points_awarded blank_penalty_entry)) :: rat\<rfloor> = - 3"
  by code_simp

end
